theory Spec2Isabelle
  imports Main
begin

section \<open>Sequence I/O of atropos (\<^verbatim>\<open>atropos/io/seqio.py\<close>)\<close>

text \<open>
  The module reads and writes FASTA and FASTQ records. Python strings are modelled as
  \<^typ>\<open>string\<close>; a \<^typ>\<open>char\<close> stands for one code point below 256. Generators are
  modelled by the finite trace they produce, exceptions by values of the type \<open>error\<close>.
\<close>

subsection \<open>String operations of Python used by the module\<close>

text \<open>The code points below 256 for which \<^verbatim>\<open>str.isspace\<close> holds; \<^verbatim>\<open>str.split()\<close> and
  \<^verbatim>\<open>str.strip()\<close> without argument use the same set.\<close>

definition is_space :: "char \<Rightarrow> bool" where
  "is_space c \<longleftrightarrow> c \<in> set [CHR 0x09, CHR 0x0A, CHR 0x0B, CHR 0x0C, CHR 0x0D,
     CHR 0x1C, CHR 0x1D, CHR 0x1E, CHR 0x1F, CHR 0x20, CHR 0x85, CHR 0xA0]"

text \<open>\<^verbatim>\<open>s.strip()\<close>\<close>

definition strip :: "string \<Rightarrow> string" where
  "strip s = rev (dropWhile is_space (rev (dropWhile is_space s)))"

text \<open>\<^verbatim>\<open>s.split(None, 1)\<close>: the first whitespace-delimited token and, when something other
  than whitespace follows it, the rest of the string; no item at all for a blank string.\<close>

definition split1 :: "string \<Rightarrow> string list" where
  "split1 s =
     (let s' = dropWhile is_space s in
      if s' = [] then []
      else
        let tok = takeWhile (\<lambda>c. \<not> is_space c) s';
            rest = dropWhile is_space (dropWhile (\<lambda>c. \<not> is_space c) s')
        in if rest = [] then [tok] else [tok, rest])"

text \<open>\<^verbatim>\<open>s[-1:]\<close>, \<^verbatim>\<open>s[:-1]\<close>, \<^verbatim>\<open>s[0:1]\<close> and \<^verbatim>\<open>s[1:]\<close>; slices never raise.\<close>

definition slice_last :: "string \<Rightarrow> string" where
  "slice_last s = drop (length s - 1) s"

definition slice_init :: "string \<Rightarrow> string" where
  "slice_init s = take (length s - 1) s"

definition slice_first :: "string \<Rightarrow> string" where
  "slice_first s = take 1 s"

definition slice_rest :: "string \<Rightarrow> string" where
  "slice_rest s = drop 1 s"

text \<open>\<^verbatim>\<open>a in b\<close> on strings: \<open>a\<close> occurs in \<open>b\<close> as a contiguous piece.\<close>

fun str_in :: "string \<Rightarrow> string \<Rightarrow> bool" where
  "str_in a [] = (a = [])"
| "str_in a (y # ys) = (take (length a) (y # ys) = a \<or> str_in a ys)"

text \<open>\<^verbatim>\<open>s.startswith(p)\<close> and \<^verbatim>\<open>s.endswith(p)\<close>\<close>

definition startswith :: "string \<Rightarrow> string \<Rightarrow> bool" where
  "startswith s p = (take (length p) s = p)"

definition endswith :: "string \<Rightarrow> string \<Rightarrow> bool" where
  "endswith s p = (length p \<le> length s \<and> drop (length s - length p) s = p)"

text \<open>\<^verbatim>\<open>s.lower()\<close> on code points below 256: the letters \<open>A\<close> to \<open>Z\<close> and the
  accented capitals from 192 to 222 (215, the multiplication sign, apart) move up by 32,
  which is setting bit 5.\<close>

definition is_upper :: "char \<Rightarrow> bool" where
  "is_upper c =
     (let n = (of_char c :: nat)
      in (65 \<le> n \<and> n \<le> 90) \<or> (192 \<le> n \<and> n \<le> 222 \<and> n \<noteq> 215))"

definition lower_char :: "char \<Rightarrow> char" where
  "lower_char c =
     (if is_upper c
      then (case c of Char b0 b1 b2 b3 b4 b5 b6 b7 \<Rightarrow> Char b0 b1 b2 b3 b4 True b6 b7)
      else c)"

definition lower :: "string \<Rightarrow> string" where
  "lower s = map lower_char s"

text \<open>\<^verbatim>\<open>d.join(xs)\<close>\<close>

fun join :: "string \<Rightarrow> string list \<Rightarrow> string" where
  "join d [] = []"
| "join d [x] = x"
| "join d (x # y # ys) = x @ d @ join d (y # ys)"

subsection \<open>File objects and \<^verbatim>\<open>FileWithPrependedLine\<close>\<close>

text \<open>An open file is its \<^verbatim>\<open>name\<close> attribute, if it has one, and the lines that are still
  to be read. A \<^verbatim>\<open>FileWithPrependedLine\<close> holds its first line and the file it wraps; each
  iteration over it starts with the first line again and goes on with what the wrapped
  file still has.\<close>

datatype fileobj =
    File "string option" "string list"
  | FileWithPrependedLine string fileobj

definition FileWithPrependedLine_init :: "fileobj \<Rightarrow> string \<Rightarrow> fileobj" where
  "FileWithPrependedLine_init file line =
     FileWithPrependedLine (if \<not> endswith line [CHR 0x0A] then line @ [CHR 0x0A] else line) file"

fun file_iter :: "fileobj \<Rightarrow> string list" where
  "file_iter (File nm ls) = ls"
| "file_iter (FileWithPrependedLine first_line file) = first_line # file_iter file"

text \<open>Where the module takes a path, it takes a string or an open file.\<close>

datatype pathlike = PathStr string | PathObj fileobj

subsection \<open>Exceptions\<close>

text \<open>Each \<^verbatim>\<open>raise\<close> of the module is one message; the fields are the values formatted
  into the text.\<close>

datatype message =
    ColorspaceLength string nat nat string
  | PrimerBase string string
  | ExpectedHeader nat string
  | MoreReadsInFile2
  | MoreReadsInFile1
  | PairedNameMismatch string string
  | LastRecordNoPartner
  | InterleavedNameMismatch string string
  | ConsecutiveNamesDiffer string string
  | InterleavedWithSecondFile
  | File2AndQualfile
  | SamColorspace
  | UnknownReaderFormat "string option"
  | UnrecognizedExtension pathlike string
  | CouldNotDetermine
  | FastqWithoutQualities
  | UnknownWriterFormat string
  | LengthsDiffer string nat nat

datatype error =
    FormatError message
  | UnknownFileType message
  | ValueError message
  | AtroposError message
  | IndexError
  | AssertionError
  | UnboundLocalError string

subsection \<open>Generators\<close>

text \<open>What a generator does when it is driven to its end: it yields items and then either
  stops (\<^verbatim>\<open>StopIteration\<close>) or raises.\<close>

datatype 'a iterator = Stop | Raise error | Yield 'a "'a iterator"

fun iter_list :: "'a list \<Rightarrow> 'a iterator" where
  "iter_list [] = Stop"
| "iter_list (x # xs) = Yield x (iter_list xs)"

fun yields_then :: "'a list \<Rightarrow> 'a iterator \<Rightarrow> 'a iterator" where
  "yields_then [] k = k"
| "yields_then (x # xs) k = Yield x (yields_then xs k)"

fun yielded :: "'a iterator \<Rightarrow> 'a list" where
  "yielded Stop = []"
| "yielded (Raise e) = []"
| "yielded (Yield x it) = x # yielded it"

fun raised :: "'a iterator \<Rightarrow> error option" where
  "raised Stop = None"
| "raised (Raise e) = Some e"
| "raised (Yield x it) = raised it"

subsection \<open>Records\<close>

text \<open>The fields of \<^verbatim>\<open>Sequence\<close> that this module reads. The fields set by the trimming
  code (\<^verbatim>\<open>match\<close>, \<^verbatim>\<open>clipped\<close>, \<dots>) are passed through unchanged and left out.\<close>

record Sequence =
  name :: string
  sequence :: string
  qualities :: "string option"
  name2 :: string

record ColorspaceSequence = Sequence +
  primer :: string

text \<open>Modelled from the spec: the constructor of \<^verbatim>\<open>Sequence\<close>, which is defined in the
  extension module \<^verbatim>\<open>atropos.io._seqio\<close>. The spec gives the fields and the invariant that
  qualities, when present, are as long as the sequence.\<close>

definition Sequence_init :: "string \<Rightarrow> string \<Rightarrow> string option \<Rightarrow> string \<Rightarrow> error + Sequence" where
  "Sequence_init nm sq quals nm2 =
     (case quals of
        Some q \<Rightarrow>
          if length q \<noteq> length sq then Inl (FormatError (LengthsDiffer nm (length q) (length sq)))
          else Inr \<lparr>name = nm, sequence = sq, qualities = quals, name2 = nm2\<rparr>
      | None \<Rightarrow> Inr \<lparr>name = nm, sequence = sq, qualities = quals, name2 = nm2\<rparr>)"

subsection \<open>\<^verbatim>\<open>sequence_names_match\<close>\<close>

definition sequence_names_match ::
  "'a Sequence_scheme \<Rightarrow> 'b Sequence_scheme \<Rightarrow> error + bool" where
  "sequence_names_match read1 read2 =
     (case split1 (name read1) of
        [] \<Rightarrow> Inl IndexError
      | nm1 # _ \<Rightarrow>
          (case split1 (name read2) of
             [] \<Rightarrow> Inl IndexError
           | nm2 # _ \<Rightarrow>
               if str_in (slice_last nm1) ''12'' \<and> str_in (slice_last nm2) ''12''
               then Inr (slice_init nm1 = slice_init nm2)
               else Inr (nm1 = nm2)))"

subsection \<open>\<^verbatim>\<open>PairedSequenceReader.__iter__\<close>\<close>

text \<open>The two arguments are the iterators over \<^verbatim>\<open>reader1\<close> and \<^verbatim>\<open>reader2\<close>.\<close>

fun PairedSequenceReader_iter ::
  "'a Sequence_scheme iterator \<Rightarrow> 'a Sequence_scheme iterator \<Rightarrow>
   ('a Sequence_scheme \<times> 'a Sequence_scheme) iterator" where
  "PairedSequenceReader_iter (Raise e) it2 = Raise e"
| "PairedSequenceReader_iter Stop Stop = Stop"
| "PairedSequenceReader_iter Stop (Yield r it2) = Raise (FormatError MoreReadsInFile2)"
| "PairedSequenceReader_iter Stop (Raise e) = Raise e"
| "PairedSequenceReader_iter (Yield read1 it1) Stop = Raise (FormatError MoreReadsInFile1)"
| "PairedSequenceReader_iter (Yield read1 it1) (Raise e) = Raise e"
| "PairedSequenceReader_iter (Yield read1 it1) (Yield read2 it2) =
     (case sequence_names_match read1 read2 of
        Inl e \<Rightarrow> Raise e
      | Inr False \<Rightarrow> Raise (FormatError (PairedNameMismatch (name read1) (name read2)))
      | Inr True \<Rightarrow> Yield (read1, read2) (PairedSequenceReader_iter it1 it2))"

subsection \<open>\<^verbatim>\<open>InterleavedSequenceReader.__iter__\<close>\<close>

fun InterleavedSequenceReader_iter ::
  "'a Sequence_scheme iterator \<Rightarrow> ('a Sequence_scheme \<times> 'a Sequence_scheme) iterator" where
  "InterleavedSequenceReader_iter Stop = Stop"
| "InterleavedSequenceReader_iter (Raise e) = Raise e"
| "InterleavedSequenceReader_iter (Yield read1 Stop) = Raise (FormatError LastRecordNoPartner)"
| "InterleavedSequenceReader_iter (Yield read1 (Raise e)) = Raise e"
| "InterleavedSequenceReader_iter (Yield read1 (Yield read2 itr)) =
     (case sequence_names_match read1 read2 of
        Inl e \<Rightarrow> Raise e
      | Inr False \<Rightarrow> Raise (FormatError (InterleavedNameMismatch (name read1) (name read2)))
      | Inr True \<Rightarrow> Yield (read1, read2) (InterleavedSequenceReader_iter itr))"

subsection \<open>Streams cut into consecutive pairs\<close>

fun pair_up :: "'a list \<Rightarrow> ('a \<times> 'a) list" where
  "pair_up (a # b # xs) = (a, b) # pair_up xs"
| "pair_up [a] = []"
| "pair_up [] = []"

subsection \<open>\<^verbatim>\<open>ColorspaceSequence.__init__\<close>\<close>

text \<open>\<^verbatim>\<open>truncate_string\<close> of \<^verbatim>\<open>atropos.util\<close> shortens a name for a message; it is the
  argument \<open>truncate_string\<close> here and in \<^verbatim>\<open>FastaReader\<close>. The argument \<open>prim\<close> is the
  keyword \<^verbatim>\<open>primer\<close>.\<close>

definition ColorspaceSequence_init ::
  "(string \<Rightarrow> string) \<Rightarrow> string \<Rightarrow> string \<Rightarrow> string option \<Rightarrow> string option \<Rightarrow> string \<Rightarrow>
   error + ColorspaceSequence" where
  "ColorspaceSequence_init truncate_string nm sq quals prim nm2 =
     (let self_primer = (case prim of None \<Rightarrow> slice_first sq | Some p \<Rightarrow> p);
          sq' = (case prim of None \<Rightarrow> slice_rest sq | Some p \<Rightarrow> sq)
      in
        if quals \<noteq> None \<and> length sq' \<noteq> length (the quals)
        then Inl (FormatError
               (ColorspaceLength (truncate_string nm) (length (the quals)) (length sq')
                  self_primer))
        else
          (case Sequence_init nm sq' quals nm2 of
             Inl e \<Rightarrow> Inl e
           | Inr s \<Rightarrow>
               if \<not> self_primer \<in> set [''A'', ''C'', ''G'', ''T'']
               then Inl (FormatError (PrimerBase self_primer (truncate_string nm)))
               else Inr (Sequence.extend s (ColorspaceSequence.fields self_primer))))"

text \<open>The classes as the readers call them, with name, sequence and qualities.\<close>

definition Sequence_class :: "string \<Rightarrow> string \<Rightarrow> string option \<Rightarrow> error + Sequence" where
  "Sequence_class nm sq quals = Sequence_init nm sq quals []"

definition ColorspaceSequence_class ::
  "(string \<Rightarrow> string) \<Rightarrow> string \<Rightarrow> string \<Rightarrow> string option \<Rightarrow> error + ColorspaceSequence" where
  "ColorspaceSequence_class truncate_string nm sq quals =
     ColorspaceSequence_init truncate_string nm sq quals None []"

subsection \<open>\<^verbatim>\<open>SAMReader\<close> and \<^verbatim>\<open>PairedEndSAMReader\<close>\<close>

text \<open>The fields of an alignment record that the readers use. The records come from the
  decoder \<^verbatim>\<open>pysam.AlignmentFile\<close>, which is taken as the iterator \<open>sam\<close>.\<close>

record AlignedSegment =
  query_name :: string
  query_sequence :: string
  query_qualities :: "nat list"
  is_read1 :: bool
  is_read2 :: bool

text \<open>\<^verbatim>\<open>SAMReader._as_sequence\<close>. The class of the records is the argument
  \<open>sequence_class\<close>, by default \<^verbatim>\<open>Sequence\<close>. \<^verbatim>\<open>chr(33 + q)\<close> is a code
  point below 256 for \<open>q \<le> 222\<close>; above that \<^term>\<open>char_of\<close> keeps it modulo 256.\<close>

definition as_sequence ::
  "(string \<Rightarrow> string \<Rightarrow> string option \<Rightarrow> error + 'r) \<Rightarrow> 'a AlignedSegment_scheme \<Rightarrow>
   error + 'r" where
  "as_sequence sequence_class read =
     sequence_class (query_name read) (query_sequence read)
       (Some (map (\<lambda>q. char_of (33 + q)) (query_qualities read)))"

text \<open>\<^verbatim>\<open>PairedEndSAMReader._iter\<close>: \<^verbatim>\<open>zip(sam, sam)\<close> draws two records from the one
  iterator and ends, without an item, as soon as either draw ends.\<close>

definition as_sequence_pair ::
  "(string \<Rightarrow> string \<Rightarrow> string option \<Rightarrow> error + 'r) \<Rightarrow> 'a AlignedSegment_scheme \<Rightarrow>
   'a AlignedSegment_scheme \<Rightarrow> error + ('r \<times> 'r)" where
  "as_sequence_pair sequence_class r0 r1 =
     (case as_sequence sequence_class r0 of
        Inl e \<Rightarrow> Inl e
      | Inr s0 \<Rightarrow>
          (case as_sequence sequence_class r1 of
             Inl e \<Rightarrow> Inl e
           | Inr s1 \<Rightarrow> Inr (s0, s1)))"

definition reorder_mates ::
  "'a AlignedSegment_scheme \<Rightarrow> 'a AlignedSegment_scheme \<Rightarrow>
   error + ('a AlignedSegment_scheme \<times> 'a AlignedSegment_scheme)" where
  "reorder_mates r0 r1 =
     (if is_read1 r0
      then (if is_read2 r1 then Inr (r0, r1) else Inl AssertionError)
      else (if is_read1 r1 then Inr (r1, r0) else Inl AssertionError))"

fun PairedEndSAMReader_iter ::
  "(string \<Rightarrow> string \<Rightarrow> string option \<Rightarrow> error + 'r) \<Rightarrow>
   'a AlignedSegment_scheme iterator \<Rightarrow> ('r \<times> 'r) iterator" where
  "PairedEndSAMReader_iter sequence_class Stop = Stop"
| "PairedEndSAMReader_iter sequence_class (Raise e) = Raise e"
| "PairedEndSAMReader_iter sequence_class (Yield r0 Stop) = Stop"
| "PairedEndSAMReader_iter sequence_class (Yield r0 (Raise e)) = Raise e"
| "PairedEndSAMReader_iter sequence_class (Yield r0 (Yield r1 sam)) =
     (if query_name r0 \<noteq> query_name r1
      then Raise (AtroposError (ConsecutiveNamesDiffer (query_name r0) (query_name r1)))
      else
        (case reorder_mates r0 r1 of
           Inl e \<Rightarrow> Raise e
         | Inr (m1, m2) \<Rightarrow>
             (case as_sequence_pair sequence_class m1 m2 of
                Inl e \<Rightarrow> Raise e
              | Inr p \<Rightarrow> Yield p (PairedEndSAMReader_iter sequence_class sam))))"

subsection \<open>\<^verbatim>\<open>FastaReader.__iter__\<close>\<close>

text \<open>The loop over the lines, with the loop variables \<open>i\<close>, \<open>name\<close> and \<open>seq\<close> as
  arguments; \<open>delimiter\<close> is \<^verbatim>\<open>self._delimiter\<close>.\<close>

fun FastaReader_loop ::
  "(string \<Rightarrow> string) \<Rightarrow> (string \<Rightarrow> string \<Rightarrow> string option \<Rightarrow> error + 'r) \<Rightarrow> string \<Rightarrow>
   nat \<Rightarrow> string option \<Rightarrow> string list \<Rightarrow> string list \<Rightarrow> 'r iterator" where
  "FastaReader_loop truncate_string sequence_class delimiter i nm seq [] =
     (case nm of
        None \<Rightarrow> Stop
      | Some n \<Rightarrow>
          (case sequence_class n (join delimiter seq) None of
             Inl e \<Rightarrow> Raise e
           | Inr r \<Rightarrow> Yield r Stop))"
| "FastaReader_loop truncate_string sequence_class delimiter i nm seq (l # ls) =
     (let line = strip l in
      if line = [] then FastaReader_loop truncate_string sequence_class delimiter (i + 1) nm seq ls
      else if hd line = CHR ''>'' then
        (case nm of
           Some n \<Rightarrow>
             (case sequence_class n (join delimiter seq) None of
                Inl e \<Rightarrow> Raise e
              | Inr r \<Rightarrow>
                  Yield r
                    (FastaReader_loop truncate_string sequence_class delimiter (i + 1)
                       (Some (slice_rest line)) [] ls))
         | None \<Rightarrow>
             FastaReader_loop truncate_string sequence_class delimiter (i + 1)
               (Some (slice_rest line)) [] ls)
      else if hd line = CHR ''#'' then
        FastaReader_loop truncate_string sequence_class delimiter (i + 1) nm seq ls
      else
        (case nm of
           Some n \<Rightarrow>
             FastaReader_loop truncate_string sequence_class delimiter (i + 1) nm (seq @ [line]) ls
         | None \<Rightarrow> Raise (FormatError (ExpectedHeader (i + 1) (truncate_string line)))))"

definition FastaReader_iter ::
  "(string \<Rightarrow> string) \<Rightarrow> (string \<Rightarrow> string \<Rightarrow> string option \<Rightarrow> error + 'r) \<Rightarrow> bool \<Rightarrow>
   fileobj \<Rightarrow> 'r iterator" where
  "FastaReader_iter truncate_string sequence_class keep_linebreaks file =
     FastaReader_loop truncate_string sequence_class
       (if keep_linebreaks then [CHR 0x0A] else []) 0 None [] (file_iter file)"

subsection \<open>Formatters\<close>

text \<open>A formatter is its class and, for the FASTA classes, the width of its text wrapper,
  if it has one. \<^verbatim>\<open>textwrap.TextWrapper(width).fill\<close> is the argument \<open>fill\<close>.\<close>

datatype seq_format =
    FastaFormat "int option"
  | ColorspaceFastaFormat "int option"
  | FastqFormat
  | ColorspaceFastqFormat

definition text_wrapper_init :: "int option \<Rightarrow> int option" where
  "text_wrapper_init line_length =
     (case line_length of
        None \<Rightarrow> None
      | Some w \<Rightarrow> if w \<noteq> 0 then Some w else None)"

definition FastaFormat_format_entry ::
  "(int \<Rightarrow> string \<Rightarrow> string) \<Rightarrow> int option \<Rightarrow> string \<Rightarrow> string \<Rightarrow> string" where
  "FastaFormat_format_entry fill text_wrapper nm sq =
     (let sq' = (case text_wrapper of Some w \<Rightarrow> fill w sq | None \<Rightarrow> sq)
      in concat [''>'', nm, [CHR 0x0A], sq', [CHR 0x0A]])"

definition FastaFormat_format ::
  "(int \<Rightarrow> string \<Rightarrow> string) \<Rightarrow> int option \<Rightarrow> 'a Sequence_scheme \<Rightarrow> string" where
  "FastaFormat_format fill text_wrapper read =
     FastaFormat_format_entry fill text_wrapper (name read) (sequence read)"

definition ColorspaceFastaFormat_format ::
  "(int \<Rightarrow> string \<Rightarrow> string) \<Rightarrow> int option \<Rightarrow> 'a ColorspaceSequence_scheme \<Rightarrow> string" where
  "ColorspaceFastaFormat_format fill text_wrapper read =
     FastaFormat_format_entry fill text_wrapper (name read) (primer read @ sequence read)"

subsection \<open>\<^verbatim>\<open>guess_format_from_name\<close>\<close>

text \<open>\<^verbatim>\<open>os.path.splitext\<close> of the Python library on POSIX paths. \<^verbatim>\<open>p.rfind(c)\<close> is the last
  index of \<open>c\<close> in \<open>p\<close>, or \<open>-1\<close>. The extension starts at the last dot, when that dot
  comes after the last slash and a character other than a dot stands between the two.\<close>

definition rfind :: "string \<Rightarrow> char \<Rightarrow> int" where
  "rfind p c =
     (if c \<in> set p then int (length p) - 1 - int (length (takeWhile (\<lambda>x. x \<noteq> c) (rev p)))
      else - 1)"

definition splitext :: "string \<Rightarrow> string \<times> string" where
  "splitext p =
     (let sepIndex = rfind p CHR ''/'';
          dotIndex = rfind p CHR ''.''
      in
        if dotIndex > sepIndex \<and>
           list_ex (\<lambda>x. x \<noteq> CHR ''.'')
             (take (nat (dotIndex - (sepIndex + 1))) (drop (nat (sepIndex + 1)) p))
        then (take (nat dotIndex) p, drop (nat dotIndex) p)
        else (p, []))"

text \<open>Modelled from the spec: \<^verbatim>\<open>splitext_compressed\<close> of \<^verbatim>\<open>atropos.io.compression\<close>, which
  is not part of this module. The spec has it strip a recognized compression suffix
  (\<open>.gz\<close>, \<open>.bz2\<close>, \<open>.xz\<close>) before the remaining extension is inspected; the result is
  the stem, the extension and the compression suffix.\<close>

definition splitext_compressed :: "string \<Rightarrow> string \<times> string \<times> string option" where
  "splitext_compressed nm =
     (let (nm', ext2) =
        (if endswith nm ''.gz'' then (take (length nm - 3) nm, Some ''.gz'')
         else if endswith nm ''.bz2'' then (take (length nm - 4) nm, Some ''.bz2'')
         else if endswith nm ''.xz'' then (take (length nm - 3) nm, Some ''.xz'')
         else (nm, None))
      in case splitext nm' of (stem, ext1) \<Rightarrow> (stem, ext1, ext2))"

text \<open>Of an object given as \<open>path\<close> only the \<^verbatim>\<open>name\<close> attribute counts, which a
  \<^verbatim>\<open>FileWithPrependedLine\<close> does not have.\<close>

fun path_name :: "pathlike \<Rightarrow> string option" where
  "path_name (PathStr s) = Some s"
| "path_name (PathObj (File nm ls)) = nm"
| "path_name (PathObj (FileWithPrependedLine first_line file)) = None"

text \<open>The local variable \<open>ext\<close> is assigned only when there is a non-empty name; the
  \<^verbatim>\<open>raise\<close> at the end reads it.\<close>

definition guess_format_from_name :: "pathlike \<Rightarrow> bool \<Rightarrow> error + string option" where
  "guess_format_from_name path raise_on_failure =
     (case path_name path of
        Some nm \<Rightarrow>
          if nm \<noteq> [] then
            (case splitext_compressed nm of
               (stem, ext1, _) \<Rightarrow>
                 let ext = lower ext1 in
                 if ext \<in> set [''.fasta'', ''.fa'', ''.fna'', ''.csfasta'', ''.csfa'']
                 then Inr (Some ''fasta'')
                 else if ext \<in> set [''.fastq'', ''.fq''] \<or>
                         (ext = ''.txt'' \<and> endswith stem ''_sequence'')
                 then Inr (Some ''fastq'')
                 else if ext \<in> set [''.sam'', ''.bam'']
                 then Inr (Some (slice_rest ext))
                 else if raise_on_failure
                 then Inl (UnknownFileType (UnrecognizedExtension path ext))
                 else Inr None)
          else if raise_on_failure then Inl (UnboundLocalError ''ext'') else Inr None
      | None \<Rightarrow> if raise_on_failure then Inl (UnboundLocalError ''ext'') else Inr None)"

subsection \<open>\<^verbatim>\<open>get_format\<close>\<close>

text \<open>\<open>quals\<close> is the keyword \<^verbatim>\<open>qualities\<close>: \<^verbatim>\<open>None\<close>, \<^verbatim>\<open>True\<close> or \<^verbatim>\<open>False\<close>.\<close>

definition get_format ::
  "pathlike \<Rightarrow> string option \<Rightarrow> bool \<Rightarrow> bool option \<Rightarrow> int option \<Rightarrow> error + seq_format" where
  "get_format path fileformat colorspace quals line_length =
     (case (if fileformat = None then guess_format_from_name path (quals = None)
            else Inr fileformat) of
        Inl e \<Rightarrow> Inl e
      | Inr guessed \<Rightarrow>
          (case (if guessed = None
                 then (if quals = Some True then Some ''fastq''
                       else if quals = Some False then Some ''fasta''
                       else None)
                 else guessed) of
             None \<Rightarrow> Inl (UnknownFileType CouldNotDetermine)
           | Some fmt \<Rightarrow>
               if fmt = ''fastq'' \<and> quals = Some False
               then Inl (ValueError FastqWithoutQualities)
               else if lower fmt = ''fasta''
               then Inr (if colorspace then ColorspaceFastaFormat (text_wrapper_init line_length)
                         else FastaFormat (text_wrapper_init line_length))
               else if lower fmt = ''fastq''
               then Inr (if colorspace then ColorspaceFastqFormat else FastqFormat)
               else Inl (UnknownFileType (UnknownWriterFormat (lower fmt)))))"

subsection \<open>\<^verbatim>\<open>open_reader\<close>\<close>

text \<open>A reader is its class and what it was constructed on. \<^verbatim>\<open>FastqReader\<close> is defined in
  the extension module, and \<^verbatim>\<open>FastaQualReader\<close> and the SAM readers are built without
  reading; of these only the construction appears here.\<close>

datatype reader =
    FastaReader fileobj
  | ColorspaceFastaReader fileobj
  | FastqReader fileobj
  | ColorspaceFastqReader fileobj
  | SRAColorspaceFastqReader fileobj
  | FastaQualReader fileobj fileobj
  | ColorspaceFastaQualReader fileobj fileobj
  | PairedSequenceReader reader reader
  | InterleavedSequenceReader reader
  | paired_to_read1 reader
  | paired_to_read2 reader
  | PairedEndSAMReader fileobj
  | Read1SingleEndSAMReader fileobj
  | Read2SingleEndSAMReader fileobj
  | SingleEndSAMReader fileobj

text \<open>The loop \<^verbatim>\<open>for line in file1\<close> up to its \<^verbatim>\<open>break\<close>: the first line that does not
  start with \<open>#\<close>, if there is one, and the file object after the lines that were read.\<close>

fun first_data_line :: "fileobj \<Rightarrow> string option \<times> fileobj" where
  "first_data_line (File nm ls) =
     (case dropWhile (\<lambda>l. startswith l ''#'') ls of
        [] \<Rightarrow> (None, File nm [])
      | line # rest \<Rightarrow> (Some line, File nm rest))"
| "first_data_line (FileWithPrependedLine first_line file) =
     (if startswith first_line ''#''
      then (case first_data_line file of (found, file') \<Rightarrow>
              (found, FileWithPrependedLine first_line file'))
      else (Some first_line, FileWithPrependedLine first_line file))"

text \<open>Lines 558 to 571: the format and the file after the detection from the content.\<close>

definition detect_from_content :: "fileobj \<Rightarrow> string option \<times> fileobj" where
  "detect_from_content file1 =
     (case first_data_line file1 of
        (None, file1') \<Rightarrow> (None, file1')
      | (Some line, file1') \<Rightarrow>
          (if startswith line ''>'' then Some ''fasta''
           else if startswith line ''@'' then Some ''fastq''
           else None,
           FileWithPrependedLine_init file1' line))"

text \<open>\<^verbatim>\<open>file1\<close>, \<^verbatim>\<open>file2\<close> and \<^verbatim>\<open>qualfile\<close> are open file objects here; such an object
  is never equal to the string \<^verbatim>\<open>STDOUT\<close>. A path string would be opened by \<^verbatim>\<open>xopen\<close> of
  \<^verbatim>\<open>atropos.io\<close>. The constructors of \<^verbatim>\<open>PairedSequenceReader\<close> and
  \<^verbatim>\<open>InterleavedSequenceReader\<close> call \<^verbatim>\<open>open_reader\<close> again, on one file and not interleaved.\<close>

function open_reader ::
  "fileobj \<Rightarrow> fileobj option \<Rightarrow> fileobj option \<Rightarrow> bool \<Rightarrow> string option \<Rightarrow> bool \<Rightarrow> int option \<Rightarrow>
   error + reader" where
  "open_reader file1 file2 qualfile colorspace fileformat interleaved single_input_read =
     (if interleaved \<and> (file2 \<noteq> None \<or> qualfile \<noteq> None)
      then Inl (ValueError InterleavedWithSecondFile)
      else if file2 \<noteq> None \<and> qualfile \<noteq> None
      then Inl (ValueError File2AndQualfile)
      else if file2 \<noteq> None
      then
        (case open_reader file1 None None colorspace fileformat False None of
           Inl e \<Rightarrow> Inl e
         | Inr reader1 \<Rightarrow>
             (case open_reader (the file2) None None colorspace fileformat False None of
                Inl e \<Rightarrow> Inl e
              | Inr reader2 \<Rightarrow> Inr (PairedSequenceReader reader1 reader2)))
      else if qualfile \<noteq> None
      then Inr (if colorspace then ColorspaceFastaQualReader file1 (the qualfile)
                else FastaQualReader file1 (the qualfile))
      else
        (case (if fileformat = None then guess_format_from_name (PathObj file1) False
               else Inr fileformat) of
           Inl e \<Rightarrow> Inl e
         | Inr guessed \<Rightarrow>
             (case (if guessed = None then detect_from_content file1 else (guessed, file1)) of
                (None, file1') \<Rightarrow> Inl (UnknownFileType (UnknownReaderFormat None))
              | (Some fmt, file1') \<Rightarrow>
                  if lower fmt \<in> set [''sam'', ''bam''] then
                    (if colorspace then Inl (ValueError SamColorspace)
                     else if interleaved then Inr (PairedEndSAMReader file1')
                     else if single_input_read = Some 1 then Inr (Read1SingleEndSAMReader file1')
                     else if single_input_read = Some 2 then Inr (Read2SingleEndSAMReader file1')
                     else Inr (SingleEndSAMReader file1'))
                  else if interleaved then
                    (case open_reader file1' None None colorspace (Some (lower fmt)) False None of
                       Inl e \<Rightarrow> Inl e
                     | Inr rd \<Rightarrow>
                         if single_input_read = Some 1
                         then Inr (paired_to_read1 (InterleavedSequenceReader rd))
                         else if single_input_read = Some 2
                         then Inr (paired_to_read2 (InterleavedSequenceReader rd))
                         else Inr (InterleavedSequenceReader rd))
                  else if lower fmt = ''fasta'' then
                    Inr (if colorspace then ColorspaceFastaReader file1' else FastaReader file1')
                  else if lower fmt = ''fastq'' then
                    Inr (if colorspace then ColorspaceFastqReader file1' else FastqReader file1')
                  else if lower fmt = ''sra-fastq'' \<and> colorspace then
                    Inr (SRAColorspaceFastqReader file1')
                  else Inl (UnknownFileType (UnknownReaderFormat (Some (lower fmt)))))))"
  by pat_completeness auto
termination
  by (relation "measure (\<lambda>(file1, file2, qualfile, colorspace, fileformat, interleaved,
        single_input_read). (if file2 \<noteq> None then 1 else 0) + (if interleaved then 1 else 0))")
    auto

declare open_reader.simps [simp del]

subsection \<open>The FASTA grammar of the specification\<close>

text \<open>The grammar as the specification words it, to compare the reader with: blank lines
  and lines starting with \<open>#\<close> are ignored; a record is a line starting with \<open>>\<close>, the
  header, and the lines up to the next such line or the end of the input.\<close>

definition significant :: "string list \<Rightarrow> string list" where
  "significant ls = filter (\<lambda>l. l \<noteq> [] \<and> hd l \<noteq> CHR ''#'') (map strip ls)"

definition starts_record :: "string \<Rightarrow> bool" where
  "starts_record l = (l \<noteq> [] \<and> hd l = CHR ''>'')"

function fasta_grammar :: "string list \<Rightarrow> (string \<times> string list) list" where
  "fasta_grammar [] = []"
| "fasta_grammar (h # ls) =
     (tl h, takeWhile (\<lambda>l. \<not> starts_record l) ls)
       # fasta_grammar (dropWhile (\<lambda>l. \<not> starts_record l) ls)"
  by pat_completeness auto
termination
  by (relation "measure length") (auto simp: length_dropWhile_le le_imp_less_Suc)

definition well_formed_fasta :: "string list \<Rightarrow> bool" where
  "well_formed_fasta ls = (case significant ls of [] \<Rightarrow> True | l # _ \<Rightarrow> starts_record l)"

section \<open>Properties\<close>

subsection \<open>Auxiliary facts\<close>

lemma slice_last_in_12:
  "a \<noteq> [] \<Longrightarrow> str_in (slice_last a) ''12'' \<longleftrightarrow> last a = CHR ''1'' \<or> last a = CHR ''2''"
proof -
  assume "a \<noteq> []"
  then have "slice_last a = [last a]"
    by (cases a rule: rev_cases) (simp_all add: slice_last_def)
  then show ?thesis by auto
qed

lemma slice_init_butlast: "slice_init a = butlast a"
  by (simp add: slice_init_def butlast_conv_take)

lemma split1_token:
  assumes "nm = ws @ tok @ rest" "tok \<noteq> []" "\<forall>c\<in>set ws. is_space c"
    "\<forall>c\<in>set tok. \<not> is_space c" "rest = [] \<or> is_space (hd rest)"
  shows "\<exists>more. split1 nm = tok # more"
proof -
  have d: "dropWhile is_space nm = tok @ rest"
    using assms by (cases tok) (auto simp: dropWhile_append)
  have t: "takeWhile (\<lambda>c. \<not> is_space c) (tok @ rest) = tok"
    using assms by (cases rest) (auto simp: takeWhile_append)
  show ?thesis
    using d t assms(2) by (auto simp: split1_def Let_def)
qed

lemma names_match_tokens:
  assumes "name read1 = ws1 @ n1 @ rest1" "n1 \<noteq> []" "\<forall>c\<in>set ws1. is_space c"
    "\<forall>c\<in>set n1. \<not> is_space c" "rest1 = [] \<or> is_space (hd rest1)"
    and "name read2 = ws2 @ n2 @ rest2" "n2 \<noteq> []" "\<forall>c\<in>set ws2. is_space c"
    "\<forall>c\<in>set n2. \<not> is_space c" "rest2 = [] \<or> is_space (hd rest2)"
  shows "sequence_names_match read1 read2 =
    Inr (if last n1 \<in> {CHR ''1'', CHR ''2''} \<and> last n2 \<in> {CHR ''1'', CHR ''2''}
         then butlast n1 = butlast n2 else n1 = n2)"
proof -
  obtain m1 where s1: "split1 (name read1) = n1 # m1"
    using split1_token[OF assms(1-5)] by blast
  obtain m2 where s2: "split1 (name read2) = n2 # m2"
    using split1_token[OF assms(6-10)] by blast
  show ?thesis
    using assms(2,7)
    by (simp add: sequence_names_match_def s1 s2 slice_last_in_12 slice_init_butlast
        del: str_in.simps)
qed

lemma length_pair_up: "length (pair_up xs) = length xs div 2"
  by (induction xs rule: pair_up.induct) simp_all

subsection \<open>The two-file reader\<close>

text \<open>
  Claim C1, as the code has it. When the records at equal positions of the two streams have
  matching names, \<^verbatim>\<open>PairedSequenceReader\<close> yields one pair for every position that both
  streams reach, and then: ends normally when the streams are equally long; raises the
  error that file 2 has more reads when stream 1 is the shorter; raises the error that
  file 1 has more reads when stream 2 is the shorter.
\<close>

theorem paired_reader_termination:
  assumes "\<forall>(a, b)\<in>set (zip xs ys). sequence_names_match a b = Inr True"
  shows "PairedSequenceReader_iter (iter_list xs) (iter_list ys) =
     yields_then (zip xs ys)
       (if length xs = length ys then Stop
        else if length xs < length ys then Raise (FormatError MoreReadsInFile2)
        else Raise (FormatError MoreReadsInFile1))"
  using assms
proof (induction xs arbitrary: ys)
  case Nil
  then show ?case by (cases ys) simp_all
next
  case (Cons x xs)
  show ?case
  proof (cases ys)
    case Nil
    then show ?thesis by simp
  next
    case (Cons y ys')
    with Cons.prems have m: "sequence_names_match x y = Inr True"
      and r: "\<forall>(a, b)\<in>set (zip xs ys'). sequence_names_match a b = Inr True"
      by auto
    show ?thesis
      using Cons.IH[OF r] m Cons by simp
  qed
qed

text \<open>Three records in file 1 and two in file 2, with matching names: two pairs, then the
  error that file 1 has more reads.\<close>

theorem paired_reader_termination_witness:
  "sequence_names_match
     \<lparr>name = ''r1/1'', sequence = ''ACGT'', qualities = None, name2 = ''''\<rparr>
     \<lparr>name = ''r1/2'', sequence = ''GGCA'', qualities = None, name2 = ''''\<rparr> = Inr True \<and>
   sequence_names_match
     \<lparr>name = ''r2/1'', sequence = ''CCGT'', qualities = None, name2 = ''''\<rparr>
     \<lparr>name = ''r2/2'', sequence = ''TTAA'', qualities = None, name2 = ''''\<rparr> = Inr True \<and>
   PairedSequenceReader_iter
     (iter_list
        [\<lparr>name = ''r1/1'', sequence = ''ACGT'', qualities = None, name2 = ''''\<rparr>,
         \<lparr>name = ''r2/1'', sequence = ''CCGT'', qualities = None, name2 = ''''\<rparr>,
         \<lparr>name = ''r3/1'', sequence = ''TTGA'', qualities = None, name2 = ''''\<rparr>])
     (iter_list
        [\<lparr>name = ''r1/2'', sequence = ''GGCA'', qualities = None, name2 = ''''\<rparr>,
         \<lparr>name = ''r2/2'', sequence = ''TTAA'', qualities = None, name2 = ''''\<rparr>]) =
   Yield (\<lparr>name = ''r1/1'', sequence = ''ACGT'', qualities = None, name2 = ''''\<rparr>,
          \<lparr>name = ''r1/2'', sequence = ''GGCA'', qualities = None, name2 = ''''\<rparr>)
     (Yield (\<lparr>name = ''r2/1'', sequence = ''CCGT'', qualities = None, name2 = ''''\<rparr>,
             \<lparr>name = ''r2/2'', sequence = ''TTAA'', qualities = None, name2 = ''''\<rparr>)
        (Raise (FormatError MoreReadsInFile1)))"
proof -
  have m1: "sequence_names_match
     \<lparr>name = ''r1/1'', sequence = ''ACGT'', qualities = None, name2 = ''''\<rparr>
     \<lparr>name = ''r1/2'', sequence = ''GGCA'', qualities = None, name2 = ''''\<rparr> = Inr True"
    by (simp add: sequence_names_match_def split1_def is_space_def slice_last_def
        slice_init_def)
  have m2: "sequence_names_match
     \<lparr>name = ''r2/1'', sequence = ''CCGT'', qualities = None, name2 = ''''\<rparr>
     \<lparr>name = ''r2/2'', sequence = ''TTAA'', qualities = None, name2 = ''''\<rparr> = Inr True"
    by (simp add: sequence_names_match_def split1_def is_space_def slice_last_def
        slice_init_def)
  have h: "\<forall>(a, b)\<in>set (zip
        [\<lparr>name = ''r1/1'', sequence = ''ACGT'', qualities = None, name2 = ''''\<rparr>,
         \<lparr>name = ''r2/1'', sequence = ''CCGT'', qualities = None, name2 = ''''\<rparr>,
         \<lparr>name = ''r3/1'', sequence = ''TTGA'', qualities = None, name2 = ''''\<rparr>]
        [\<lparr>name = ''r1/2'', sequence = ''GGCA'', qualities = None, name2 = ''''\<rparr>,
         \<lparr>name = ''r2/2'', sequence = ''TTAA'', qualities = None, name2 = ''''\<rparr>]).
      sequence_names_match a b = Inr True"
    using m1 m2 by simp
  show ?thesis
    using m1 m2 paired_reader_termination[OF h] by simp
qed

text \<open>
  Claim C1 as it is stated fails: with three records in file 1 and two in file 2 whose
  names differ, both readers produce a record at the first step, yet no pair is yielded
  and the error is the one of the name check, not that file 1 has more reads.
\<close>

theorem paired_reader_counterexample:
  "yielded (PairedSequenceReader_iter
     (iter_list
        [\<lparr>name = ''a'', sequence = ''ACGT'', qualities = None, name2 = ''''\<rparr>,
         \<lparr>name = ''b'', sequence = ''CCGT'', qualities = None, name2 = ''''\<rparr>,
         \<lparr>name = ''c'', sequence = ''TTGA'', qualities = None, name2 = ''''\<rparr>])
     (iter_list
        [\<lparr>name = ''x'', sequence = ''GGCA'', qualities = None, name2 = ''''\<rparr>,
         \<lparr>name = ''y'', sequence = ''TTAA'', qualities = None, name2 = ''''\<rparr>])) = [] \<and>
   raised (PairedSequenceReader_iter
     (iter_list
        [\<lparr>name = ''a'', sequence = ''ACGT'', qualities = None, name2 = ''''\<rparr>,
         \<lparr>name = ''b'', sequence = ''CCGT'', qualities = None, name2 = ''''\<rparr>,
         \<lparr>name = ''c'', sequence = ''TTGA'', qualities = None, name2 = ''''\<rparr>])
     (iter_list
        [\<lparr>name = ''x'', sequence = ''GGCA'', qualities = None, name2 = ''''\<rparr>,
         \<lparr>name = ''y'', sequence = ''TTAA'', qualities = None, name2 = ''''\<rparr>])) =
     Some (FormatError (PairedNameMismatch ''a'' ''x''))"
  by (simp add: sequence_names_match_def split1_def is_space_def slice_last_def
      slice_init_def)


subsection \<open>The interleaved reader\<close>

text \<open>
  Claim C2. When every two consecutive records of the stream have matching names,
  \<^verbatim>\<open>InterleavedSequenceReader\<close> yields the consecutive pairs, \<open>n div 2\<close> of them for \<open>n\<close>
  records; for an even \<open>n\<close> it then ends normally, for an odd \<open>n\<close> it then raises the error
  that the last record has no partner, so the dangling record is never dropped silently.
\<close>

theorem interleaved_reader_pairs:
  assumes "\<forall>(a, b)\<in>set (pair_up xs). sequence_names_match a b = Inr True"
  shows "InterleavedSequenceReader_iter (iter_list xs) =
           yields_then (pair_up xs)
             (if even (length xs) then Stop else Raise (FormatError LastRecordNoPartner)) \<and>
         length (pair_up xs) = length xs div 2"
proof
  show "InterleavedSequenceReader_iter (iter_list xs) =
           yields_then (pair_up xs)
             (if even (length xs) then Stop else Raise (FormatError LastRecordNoPartner))"
    using assms by (induction xs rule: pair_up.induct) simp_all
  show "length (pair_up xs) = length xs div 2"
    by (rule length_pair_up)
qed

text \<open>Three records: one pair, then the error.\<close>

theorem interleaved_reader_pairs_witness:
  "sequence_names_match
     \<lparr>name = ''r1/1'', sequence = ''ACGT'', qualities = None, name2 = ''''\<rparr>
     \<lparr>name = ''r1/2'', sequence = ''GGCA'', qualities = None, name2 = ''''\<rparr> = Inr True \<and>
   InterleavedSequenceReader_iter
     (iter_list
        [\<lparr>name = ''r1/1'', sequence = ''ACGT'', qualities = None, name2 = ''''\<rparr>,
         \<lparr>name = ''r1/2'', sequence = ''GGCA'', qualities = None, name2 = ''''\<rparr>,
         \<lparr>name = ''r2/1'', sequence = ''CCGT'', qualities = None, name2 = ''''\<rparr>]) =
   Yield (\<lparr>name = ''r1/1'', sequence = ''ACGT'', qualities = None, name2 = ''''\<rparr>,
          \<lparr>name = ''r1/2'', sequence = ''GGCA'', qualities = None, name2 = ''''\<rparr>)
     (Raise (FormatError LastRecordNoPartner))"
proof -
  have m: "sequence_names_match
     \<lparr>name = ''r1/1'', sequence = ''ACGT'', qualities = None, name2 = ''''\<rparr>
     \<lparr>name = ''r1/2'', sequence = ''GGCA'', qualities = None, name2 = ''''\<rparr> = Inr True"
    by (simp add: sequence_names_match_def split1_def is_space_def slice_last_def
        slice_init_def)
  have h: "\<forall>(a, b)\<in>set (pair_up
        [\<lparr>name = ''r1/1'', sequence = ''ACGT'', qualities = None, name2 = ''''\<rparr>,
         \<lparr>name = ''r1/2'', sequence = ''GGCA'', qualities = None, name2 = ''''\<rparr>,
         \<lparr>name = ''r2/1'', sequence = ''CCGT'', qualities = None, name2 = ''''\<rparr>]).
      sequence_names_match a b = Inr True"
    using m by simp
  show ?thesis
    using m interleaved_reader_pairs[OF h] by simp
qed

subsection \<open>The comparison of names\<close>

text \<open>The readers on two records whose headers hold a token: the pair is yielded when the
  tokens match and raises the error that carries both headers when they do not.\<close>

lemma sequence_names_match_rule:
  fixes read1 read2 :: "'a Sequence_scheme"
  assumes "name read1 = ws1 @ n1 @ rest1" "n1 \<noteq> []" "\<forall>c\<in>set ws1. is_space c"
    "\<forall>c\<in>set n1. \<not> is_space c" "rest1 = [] \<or> is_space (hd rest1)"
    and "name read2 = ws2 @ n2 @ rest2" "n2 \<noteq> []" "\<forall>c\<in>set ws2. is_space c"
    "\<forall>c\<in>set n2. \<not> is_space c" "rest2 = [] \<or> is_space (hd rest2)"
  shows "PairedSequenceReader_iter (Yield read1 it1) (Yield read2 it2) =
           (if (if last n1 \<in> {CHR ''1'', CHR ''2''} \<and> last n2 \<in> {CHR ''1'', CHR ''2''}
                then butlast n1 = butlast n2 else n1 = n2)
            then Yield (read1, read2) (PairedSequenceReader_iter it1 it2)
            else Raise (FormatError (PairedNameMismatch (name read1) (name read2)))) \<and>
         InterleavedSequenceReader_iter (Yield read1 (Yield read2 itr)) =
           (if (if last n1 \<in> {CHR ''1'', CHR ''2''} \<and> last n2 \<in> {CHR ''1'', CHR ''2''}
                then butlast n1 = butlast n2 else n1 = n2)
            then Yield (read1, read2) (InterleavedSequenceReader_iter itr)
            else Raise (FormatError (InterleavedNameMismatch (name read1) (name read2))))"
proof -
  have m: "sequence_names_match read1 read2 =
           Inr (if last n1 \<in> {CHR ''1'', CHR ''2''} \<and> last n2 \<in> {CHR ''1'', CHR ''2''}
                then butlast n1 = butlast n2 else n1 = n2)"
    by (rule names_match_tokens[OF assms])
  show ?thesis
    unfolding PairedSequenceReader_iter.simps InterleavedSequenceReader_iter.simps m
    by simp
qed

text \<open>
  Claim C4 on headers without a name. A FASTA record whose header line is just \<open>>\<close> has
  the empty name. The comparison is meant to tell whether two names are identical and
  the readers are meant to yield the pair or raise the pairing error, but
  \<^verbatim>\<open>split(None, 1)[0]\<close> has no item to take from a blank name: two such records, read
  from one interleaved stream or from two files, end the iteration with an
  \<^verbatim>\<open>IndexError\<close>.
\<close>

theorem sequence_names_match_blank_names:
  "FastaReader_iter (\<lambda>s. s) Sequence_class False
     (File None [''>\<newline>'', ''ACGT\<newline>'', ''>\<newline>'', ''TTGA\<newline>'']) =
     iter_list
       [\<lparr>name = '''', sequence = ''ACGT'', qualities = None, name2 = ''''\<rparr>,
        \<lparr>name = '''', sequence = ''TTGA'', qualities = None, name2 = ''''\<rparr>] \<and>
   sequence_names_match
     \<lparr>name = '''', sequence = ''ACGT'', qualities = None, name2 = ''''\<rparr>
     \<lparr>name = '''', sequence = ''TTGA'', qualities = None, name2 = ''''\<rparr> = Inl IndexError \<and>
   InterleavedSequenceReader_iter
     (iter_list
       [\<lparr>name = '''', sequence = ''ACGT'', qualities = None, name2 = ''''\<rparr>,
        \<lparr>name = '''', sequence = ''TTGA'', qualities = None, name2 = ''''\<rparr>]) =
     Raise IndexError \<and>
   PairedSequenceReader_iter
     (iter_list [\<lparr>name = '''', sequence = ''ACGT'', qualities = None, name2 = ''''\<rparr>])
     (iter_list [\<lparr>name = '''', sequence = ''TTGA'', qualities = None, name2 = ''''\<rparr>]) =
     Raise IndexError"
  by (simp add: FastaReader_iter_def strip_def is_space_def slice_rest_def Sequence_class_def
      Sequence_init_def sequence_names_match_def split1_def)

text \<open>
  Claim C9. The comparison looks at the first whitespace-delimited token of each name
  and at nothing else. For two records whose names hold such a token, alone, after
  leading whitespace or before whitespace and any further text, the result is the one
  the rule for a trailing \<open>1\<close> or \<open>2\<close> gives on the two tokens; so when the tokens are
  equal under that rule the records match, whatever follows the whitespace in either
  header, and both readers yield the pair without an error.
\<close>

theorem names_match_ignores_description:
  fixes read1 read2 :: "'a Sequence_scheme"
  assumes "name read1 = ws1 @ n1 @ rest1" "n1 \<noteq> []" "\<forall>c\<in>set ws1. is_space c"
    "\<forall>c\<in>set n1. \<not> is_space c" "rest1 = [] \<or> is_space (hd rest1)"
    and "name read2 = ws2 @ n2 @ rest2" "n2 \<noteq> []" "\<forall>c\<in>set ws2. is_space c"
    "\<forall>c\<in>set n2. \<not> is_space c" "rest2 = [] \<or> is_space (hd rest2)"
  shows "sequence_names_match read1 read2 =
           Inr (if last n1 \<in> {CHR ''1'', CHR ''2''} \<and> last n2 \<in> {CHR ''1'', CHR ''2''}
                then butlast n1 = butlast n2 else n1 = n2) \<and>
         ((if last n1 \<in> {CHR ''1'', CHR ''2''} \<and> last n2 \<in> {CHR ''1'', CHR ''2''}
           then butlast n1 = butlast n2 else n1 = n2) \<longrightarrow>
          sequence_names_match read1 read2 = Inr True \<and>
          PairedSequenceReader_iter (iter_list [read1]) (iter_list [read2]) =
            iter_list [(read1, read2)] \<and>
          InterleavedSequenceReader_iter (iter_list [read1, read2]) =
            iter_list [(read1, read2)])"
proof -
  have m: "sequence_names_match read1 read2 =
           Inr (if last n1 \<in> {CHR ''1'', CHR ''2''} \<and> last n2 \<in> {CHR ''1'', CHR ''2''}
                then butlast n1 = butlast n2 else n1 = n2)"
    by (rule names_match_tokens[OF assms])
  have "sequence_names_match read1 read2 = Inr True \<and>
          PairedSequenceReader_iter (iter_list [read1]) (iter_list [read2]) =
            iter_list [(read1, read2)] \<and>
          InterleavedSequenceReader_iter (iter_list [read1, read2]) =
            iter_list [(read1, read2)]"
    if "if last n1 \<in> {CHR ''1'', CHR ''2''} \<and> last n2 \<in> {CHR ''1'', CHR ''2''}
        then butlast n1 = butlast n2 else n1 = n2"
  proof -
    from that m have t: "sequence_names_match read1 read2 = Inr True"
      by simp
    then show ?thesis by simp
  qed
  with m show ?thesis by blast
qed

text \<open>The headers \<open>r7/1 lane=3\<close> and \<open> r7/2\<close>, the second with a leading blank and no
  description, are paired; \<open>r7/1 lane=3\<close> and \<open>r8/1 lane=3\<close>, with equal descriptions,
  are not.\<close>

theorem names_match_ignores_description_witness:
  "sequence_names_match
     \<lparr>name = ''r7/1 lane=3'', sequence = ''ACGT'', qualities = None, name2 = ''''\<rparr>
     \<lparr>name = '' r7/2'', sequence = ''GGCA'', qualities = None, name2 = ''''\<rparr> = Inr True \<and>
   InterleavedSequenceReader_iter
     (iter_list
       [\<lparr>name = ''r7/1 lane=3'', sequence = ''ACGT'', qualities = None, name2 = ''''\<rparr>,
        \<lparr>name = '' r7/2'', sequence = ''GGCA'', qualities = None, name2 = ''''\<rparr>]) =
   iter_list
     [(\<lparr>name = ''r7/1 lane=3'', sequence = ''ACGT'', qualities = None, name2 = ''''\<rparr>,
       \<lparr>name = '' r7/2'', sequence = ''GGCA'', qualities = None, name2 = ''''\<rparr>)] \<and>
   sequence_names_match
     \<lparr>name = ''r7/1 lane=3'', sequence = ''ACGT'', qualities = None, name2 = ''''\<rparr>
     \<lparr>name = ''r8/1 lane=3'', sequence = ''GGCA'', qualities = None, name2 = ''''\<rparr> = Inr False"
proof -
  have sp: "is_space CHR 0x20"
    by (simp add: is_space_def)
  have ns: "\<forall>c\<in>set ''r7/1''. \<not> is_space c" "\<forall>c\<in>set ''r7/2''. \<not> is_space c"
    "\<forall>c\<in>set ''r8/1''. \<not> is_space c"
    by (simp_all add: is_space_def)
  show ?thesis
    using names_match_ignores_description[where
        ?read1.0 = "\<lparr>name = ''r7/1 lane=3'', sequence = ''ACGT'', qualities = None, name2 = ''''\<rparr>"
        and ?read2.0 = "\<lparr>name = '' r7/2'', sequence = ''GGCA'', qualities = None, name2 = ''''\<rparr>"
        and ?ws1.0 = "[]" and ?n1.0 = "''r7/1''" and ?rest1.0 = "'' lane=3''"
        and ?ws2.0 = "'' ''" and ?n2.0 = "''r7/2''" and ?rest2.0 = "[]"]
      names_match_ignores_description[where
        ?read1.0 = "\<lparr>name = ''r7/1 lane=3'', sequence = ''ACGT'', qualities = None, name2 = ''''\<rparr>"
        and ?read2.0 = "\<lparr>name = ''r8/1 lane=3'', sequence = ''GGCA'', qualities = None, name2 = ''''\<rparr>"
        and ?ws1.0 = "[]" and ?n1.0 = "''r7/1''" and ?rest1.0 = "'' lane=3''"
        and ?ws2.0 = "[]" and ?n2.0 = "''r8/1''" and ?rest2.0 = "'' lane=3''"]
      sp ns
    by simp
qed

subsection \<open>The paired reader of alignment records\<close>

lemma sam_pairs:
  "\<forall>(a, b)\<in>set (pair_up xs). query_name a = query_name b \<and>
      (if is_read1 a then is_read2 b else is_read1 b) \<and>
      as_sequence cls a = Inr (conv a) \<and> as_sequence cls b = Inr (conv b) \<Longrightarrow>
   PairedEndSAMReader_iter cls (iter_list xs) =
     iter_list (map (\<lambda>(a, b). if is_read1 a then (conv a, conv b) else (conv b, conv a))
       (pair_up xs))"
  by (induction xs rule: pair_up.induct) (auto simp: reorder_mates_def as_sequence_pair_def)

text \<open>
  Claim C10, as the code has it. Take a stream with an odd number \<open>n\<close> of alignment
  records in which every two consecutive records have the same name, are the two mates of
  a pair (when the first is flagged as read 1 the second is flagged as read 2, otherwise
  the second is flagged as read 1) and convert to sequence records. Then
  \<^verbatim>\<open>PairedEndSAMReader\<close> yields \<open>n div 2\<close> pairs, read 1 first, and ends normally: the
  last record is dropped without an error.
\<close>

theorem sam_reader_drops_last:
  assumes "odd (length xs)"
    and "\<forall>(a, b)\<in>set (pair_up xs). query_name a = query_name b \<and>
      (if is_read1 a then is_read2 b else is_read1 b) \<and>
      as_sequence cls a = Inr (conv a) \<and> as_sequence cls b = Inr (conv b)"
  shows "PairedEndSAMReader_iter cls (iter_list xs) =
           iter_list (map (\<lambda>(a, b). if is_read1 a then (conv a, conv b) else (conv b, conv a))
             (pair_up xs)) \<and>
         length (pair_up xs) = length xs div 2 \<and>
         raised (PairedEndSAMReader_iter cls (iter_list xs)) = None \<and>
         2 * length (yielded (PairedEndSAMReader_iter cls (iter_list xs))) + 1 = length xs"
proof -
  have e: "PairedEndSAMReader_iter cls (iter_list xs) =
           iter_list (map (\<lambda>(a, b). if is_read1 a then (conv a, conv b) else (conv b, conv a))
             (pair_up xs))"
    by (rule sam_pairs[OF assms(2)])
  have r: "raised (iter_list ys) = None" for ys :: "('b \<times> 'b) list"
    by (induction ys) simp_all
  have y: "yielded (iter_list ys) = ys" for ys :: "('b \<times> 'b) list"
    by (induction ys) simp_all
  have "2 * (length xs div 2) + 1 = length xs"
    using assms(1) by presburger
  then show ?thesis
    by (simp add: e r y length_pair_up)
qed

text \<open>Three records of one name, read 2 before read 1: one pair, reordered, and a normal
  end.\<close>

theorem sam_reader_drops_last_witness:
  "PairedEndSAMReader_iter Sequence_class
     (iter_list
       [\<lparr>query_name = ''q1'', query_sequence = ''AC'', query_qualities = [40, 2],
          is_read1 = False, is_read2 = True\<rparr>,
        \<lparr>query_name = ''q1'', query_sequence = ''GT'', query_qualities = [30, 30],
          is_read1 = True, is_read2 = False\<rparr>,
        \<lparr>query_name = ''q2'', query_sequence = ''TT'', query_qualities = [12, 12],
          is_read1 = True, is_read2 = False\<rparr>]) =
   Yield (\<lparr>name = ''q1'', sequence = ''GT'', qualities = Some ''??'', name2 = ''''\<rparr>,
          \<lparr>name = ''q1'', sequence = ''AC'', qualities = Some ''I#'', name2 = ''''\<rparr>) Stop"
proof -
  have c1: "as_sequence Sequence_class
      \<lparr>query_name = ''q1'', query_sequence = ''AC'', query_qualities = [40, 2],
          is_read1 = False, is_read2 = True\<rparr> =
      Inr \<lparr>name = ''q1'', sequence = ''AC'', qualities = Some ''I#'', name2 = ''''\<rparr>"
    by (simp add: as_sequence_def Sequence_class_def Sequence_init_def char_of_def bit_0)
  have c2: "as_sequence Sequence_class
      \<lparr>query_name = ''q1'', query_sequence = ''GT'', query_qualities = [30, 30],
          is_read1 = True, is_read2 = False\<rparr> =
      Inr \<lparr>name = ''q1'', sequence = ''GT'', qualities = Some ''??'', name2 = ''''\<rparr>"
    by (simp add: as_sequence_def Sequence_class_def Sequence_init_def char_of_def bit_0)
  show ?thesis
    using sam_reader_drops_last[where cls = Sequence_class
        and conv = "\<lambda>r. \<lparr>name = query_name r, sequence = query_sequence r,
          qualities = Some (map (\<lambda>q. char_of (33 + q)) (query_qualities r)),
          name2 = ''''\<rparr>"
        and xs = "[\<lparr>query_name = ''q1'', query_sequence = ''AC'', query_qualities = [40, 2],
          is_read1 = False, is_read2 = True\<rparr>,
        \<lparr>query_name = ''q1'', query_sequence = ''GT'', query_qualities = [30, 30],
          is_read1 = True, is_read2 = False\<rparr>,
        \<lparr>query_name = ''q2'', query_sequence = ''TT'', query_qualities = [12, 12],
          is_read1 = True, is_read2 = False\<rparr>]"] c1 c2
    by (simp add: char_of_def bit_0)
qed

text \<open>
  Claim C10 as it is stated fails: three records of one name, all flagged as read 1, are
  an odd stream whose consecutive records have matching names, and the reader raises an
  \<^verbatim>\<open>AssertionError\<close> at the first pair instead of ending normally.
\<close>

theorem sam_reader_counterexample:
  "PairedEndSAMReader_iter Sequence_class
     (iter_list
       [\<lparr>query_name = ''q1'', query_sequence = ''AC'', query_qualities = [40, 2],
          is_read1 = True, is_read2 = False\<rparr>,
        \<lparr>query_name = ''q1'', query_sequence = ''GT'', query_qualities = [30, 30],
          is_read1 = True, is_read2 = False\<rparr>,
        \<lparr>query_name = ''q1'', query_sequence = ''TT'', query_qualities = [12, 12],
          is_read1 = True, is_read2 = False\<rparr>]) = Raise AssertionError"
  by (simp add: reorder_mates_def)


subsection \<open>Colorspace records\<close>

text \<open>
  Claim C5. Without an explicit primer, \<^verbatim>\<open>ColorspaceSequence\<close> takes the first character
  of the raw sequence as the primer and stores the rest; the construction succeeds when
  that primer is one of \<open>A\<close>, \<open>C\<close>, \<open>G\<close>, \<open>T\<close> and the qualities, if there are any, are
  as long as the stored sequence. A primer outside the four, split off or given, makes
  the construction itself fail with a \<^verbatim>\<open>FormatError\<close>; qualities whose length is not that
  of the stored sequence make it fail with the \<^verbatim>\<open>FormatError\<close> that carries the read's
  name.
\<close>

theorem ColorspaceSequence_init_cases:
  "(slice_first sq \<in> {''A'', ''C'', ''G'', ''T''} \<and> (quals = None \<or> map_option length quals = Some (length (slice_rest sq))) \<longrightarrow>
      ColorspaceSequence_init tr nm sq quals None nm2 =
        Inr \<lparr>name = nm, sequence = slice_rest sq, qualities = quals, name2 = nm2,
             primer = slice_first sq\<rparr>) \<and>
   (slice_first sq \<notin> {''A'', ''C'', ''G'', ''T''} \<longrightarrow>
      (\<exists>m. ColorspaceSequence_init tr nm sq quals None nm2 = Inl (FormatError m))) \<and>
   (p \<notin> {''A'', ''C'', ''G'', ''T''} \<longrightarrow>
      (\<exists>m. ColorspaceSequence_init tr nm sq quals (Some p) nm2 = Inl (FormatError m))) \<and>
   (length q \<noteq> length (slice_rest sq) \<longrightarrow>
      ColorspaceSequence_init tr nm sq (Some q) None nm2 =
        Inl (FormatError
          (ColorspaceLength (tr nm) (length q) (length (slice_rest sq)) (slice_first sq)))) \<and>
   (length q \<noteq> length sq \<longrightarrow>
      ColorspaceSequence_init tr nm sq (Some q) (Some p) nm2 =
        Inl (FormatError (ColorspaceLength (tr nm) (length q) (length sq) p)))"
  by (cases quals)
    (auto simp: ColorspaceSequence_init_def Sequence_init_def Sequence.extend_def
      ColorspaceSequence.fields_def Let_def)

text \<open>The raw sequence \<open>A0123\<close> with four quality values.\<close>

theorem ColorspaceSequence_init_cases_witness:
  "ColorspaceSequence_init (\<lambda>s. s) ''read'' ''A0123'' (Some ''IIII'') None '''' =
     Inr \<lparr>name = ''read'', sequence = ''0123'', qualities = Some ''IIII'', name2 = '''',
          primer = ''A''\<rparr> \<and>
   (\<exists>m. ColorspaceSequence_init (\<lambda>s. s) ''read'' ''N0123'' (Some ''IIII'') None '''' =
     Inl (FormatError m)) \<and>
   ColorspaceSequence_init (\<lambda>s. s) ''read'' ''A0123'' (Some ''III'') None '''' =
     Inl (FormatError (ColorspaceLength ''read'' 3 4 ''A''))"
  using ColorspaceSequence_init_cases[of "''A0123''" "Some ''IIII''" "\<lambda>s. s" "''read''" "''''"
      "''N''" "''III''"]
    ColorspaceSequence_init_cases[of "''N0123''" "Some ''IIII''" "\<lambda>s. s" "''read''" "''''"
      "''N''" "''III''"]
  by (simp add: slice_first_def slice_rest_def)

subsection \<open>The FASTA reader against the grammar\<close>

lemma join_empty: "join [] xs = concat xs"
  by (induction xs rule: induct_list012) simp_all

lemma significant_Cons:
  "significant (l # ls) =
     (if strip l = [] \<or> hd (strip l) = CHR ''#'' then significant ls
      else strip l # significant ls)"
  by (simp add: significant_def)

lemma FastaReader_loop_open:
  "FastaReader_loop tr Sequence_class d i (Some n) seq ls =
     Yield \<lparr>name = n,
            sequence = join d (seq @ takeWhile (\<lambda>l. \<not> starts_record l) (significant ls)),
            qualities = None, name2 = []\<rparr>
       (iter_list
          (map (\<lambda>(h, body). \<lparr>name = h, sequence = join d body, qualities = None, name2 = []\<rparr>)
             (fasta_grammar (dropWhile (\<lambda>l. \<not> starts_record l) (significant ls)))))"
proof (induction ls arbitrary: i n seq)
  case Nil
  then show ?case
    by (simp add: significant_def Sequence_class_def Sequence_init_def)
next
  case (Cons l ls)
  show ?case
  proof (cases "strip l = [] \<or> hd (strip l) = CHR ''#''")
    case True
    then show ?thesis
      using Cons.IH[of "Suc i" n seq] by (auto simp: significant_Cons Let_def)
  next
    case False
    show ?thesis
    proof (cases "hd (strip l) = CHR ''>''")
      case True
      with False have s: "starts_record (strip l)"
        by (simp add: starts_record_def)
      show ?thesis
        using False True s Cons.IH[of "Suc i" "slice_rest (strip l)" "[]"]
        by (simp add: significant_Cons Let_def Sequence_class_def Sequence_init_def
            slice_rest_def drop_Suc)
    next
      case notheader: False
      with False have s: "\<not> starts_record (strip l)"
        by (simp add: starts_record_def)
      show ?thesis
        using False notheader s Cons.IH[of "Suc i" n "seq @ [strip l]"]
        by (simp add: significant_Cons Let_def)
    qed
  qed
qed

lemma FastaReader_loop_start:
  "well_formed_fasta ls \<Longrightarrow>
   FastaReader_loop tr Sequence_class d i None [] ls =
     iter_list
       (map (\<lambda>(h, body). \<lparr>name = h, sequence = join d body, qualities = None, name2 = []\<rparr>)
          (fasta_grammar (significant ls)))"
proof (induction ls arbitrary: i)
  case Nil
  then show ?case by (simp add: significant_def)
next
  case (Cons l ls)
  show ?case
  proof (cases "strip l = [] \<or> hd (strip l) = CHR ''#''")
    case True
    with Cons.prems have "well_formed_fasta ls"
      by (simp add: well_formed_fasta_def significant_Cons)
    then show ?thesis
      using True Cons.IH[of "Suc i"] by (auto simp: significant_Cons Let_def)
  next
    case False
    with Cons.prems have h: "hd (strip l) = CHR ''>''"
      by (simp add: well_formed_fasta_def significant_Cons starts_record_def)
    show ?thesis
      using False h
      by (simp add: significant_Cons Let_def FastaReader_loop_open slice_rest_def drop_Suc)
  qed
qed

lemma yielded_iter_list: "yielded (iter_list xs) = xs"
  by (induction xs) simp_all

text \<open>
  Claim C8. On a well-formed FASTA input (after the blank lines and the \<open>#\<close> lines, the
  first line is a header) \<^verbatim>\<open>FastaReader\<close> ends normally and yields exactly the records of
  the grammar, each with the header after its \<open>>\<close> as name and the concatenation of its
  sequence lines as sequence; \<^verbatim>\<open>FastaFormat\<close> without a line length renders each of them
  as \<open>>\<close>, the header, a newline, the concatenated sequence and a newline. The sequence
  content survives the round trip; the width of the original lines does not.
\<close>

theorem fasta_round_trip:
  assumes "well_formed_fasta (file_iter fobj)"
  shows "FastaReader_iter tr Sequence_class False fobj =
           iter_list
             (map (\<lambda>(h, body). \<lparr>name = h, sequence = concat body, qualities = None, name2 = []\<rparr>)
                (fasta_grammar (significant (file_iter fobj)))) \<and>
         map (FastaFormat_format fill (text_wrapper_init None))
             (yielded (FastaReader_iter tr Sequence_class False fobj)) =
           map (\<lambda>(h, body). ''>'' @ h @ [CHR 0x0A] @ concat body @ [CHR 0x0A])
             (fasta_grammar (significant (file_iter fobj)))"
proof -
  have r: "FastaReader_iter tr Sequence_class False fobj =
           iter_list
             (map (\<lambda>(h, body). \<lparr>name = h, sequence = concat body, qualities = None, name2 = []\<rparr>)
                (fasta_grammar (significant (file_iter fobj))))"
    using FastaReader_loop_start[OF assms, of tr "[]" 0]
    by (simp add: FastaReader_iter_def join_empty)
  have f: "FastaFormat_format fill (text_wrapper_init None)
             \<lparr>name = h, sequence = s, qualities = None, name2 = []\<rparr> =
           ''>'' @ h @ [CHR 0x0A] @ s @ [CHR 0x0A]" for h s
    by (simp add: FastaFormat_format_def FastaFormat_format_entry_def text_wrapper_init_def)
  show ?thesis
    unfolding r yielded_iter_list by (simp add: f split_def)
qed

text \<open>Two records, the first wrapped over two lines and interrupted by a comment and a
  blank line.\<close>

theorem fasta_round_trip_witness:
  "well_formed_fasta
     [''# made by hand'' @ [CHR 0x0A], ''>seq1 first'' @ [CHR 0x0A], ''ACGT'' @ [CHR 0x0A],
      [CHR 0x0A], ''# note'' @ [CHR 0x0A], ''TTAA'' @ [CHR 0x0D, CHR 0x0A],
      ''>seq2'' @ [CHR 0x0A], ''GG''] \<and>
   map (FastaFormat_format (\<lambda>w s. s) (text_wrapper_init None))
     (yielded (FastaReader_iter (\<lambda>s. s) Sequence_class False
        (File None
           [''# made by hand'' @ [CHR 0x0A], ''>seq1 first'' @ [CHR 0x0A], ''ACGT'' @ [CHR 0x0A],
            [CHR 0x0A], ''# note'' @ [CHR 0x0A], ''TTAA'' @ [CHR 0x0D, CHR 0x0A],
            ''>seq2'' @ [CHR 0x0A], ''GG'']))) =
   [''>seq1 first'' @ [CHR 0x0A] @ ''ACGTTTAA'' @ [CHR 0x0A],
    ''>seq2'' @ [CHR 0x0A] @ ''GG'' @ [CHR 0x0A]]"
proof -
  have s: "significant
     [''# made by hand'' @ [CHR 0x0A], ''>seq1 first'' @ [CHR 0x0A], ''ACGT'' @ [CHR 0x0A],
      [CHR 0x0A], ''# note'' @ [CHR 0x0A], ''TTAA'' @ [CHR 0x0D, CHR 0x0A],
      ''>seq2'' @ [CHR 0x0A], ''GG''] = [''>seq1 first'', ''ACGT'', ''TTAA'', ''>seq2'', ''GG'']"
    by (simp add: significant_def strip_def is_space_def)
  have w: "well_formed_fasta
     [''# made by hand'' @ [CHR 0x0A], ''>seq1 first'' @ [CHR 0x0A], ''ACGT'' @ [CHR 0x0A],
      [CHR 0x0A], ''# note'' @ [CHR 0x0A], ''TTAA'' @ [CHR 0x0D, CHR 0x0A],
      ''>seq2'' @ [CHR 0x0A], ''GG'']"
    unfolding well_formed_fasta_def s by (simp add: starts_record_def)
  have g: "fasta_grammar [''>seq1 first'', ''ACGT'', ''TTAA'', ''>seq2'', ''GG''] =
      [(''seq1 first'', [''ACGT'', ''TTAA'']), (''seq2'', [''GG''])]"
    by (simp add: starts_record_def)
  have "map (FastaFormat_format (\<lambda>w s. s) (text_wrapper_init None))
     (yielded (FastaReader_iter (\<lambda>s. s) Sequence_class False
        (File None
           [''# made by hand'' @ [CHR 0x0A], ''>seq1 first'' @ [CHR 0x0A], ''ACGT'' @ [CHR 0x0A],
            [CHR 0x0A], ''# note'' @ [CHR 0x0A], ''TTAA'' @ [CHR 0x0D, CHR 0x0A],
            ''>seq2'' @ [CHR 0x0A], ''GG'']))) =
     map (\<lambda>(h, body). ''>'' @ h @ [CHR 0x0A] @ concat body @ [CHR 0x0A])
       [(''seq1 first'', [''ACGT'', ''TTAA'']), (''seq2'', [''GG''])]"
    using fasta_round_trip[where fobj = "File None
           [''# made by hand'' @ [CHR 0x0A], ''>seq1 first'' @ [CHR 0x0A], ''ACGT'' @ [CHR 0x0A],
            [CHR 0x0A], ''# note'' @ [CHR 0x0A], ''TTAA'' @ [CHR 0x0D, CHR 0x0A],
            ''>seq2'' @ [CHR 0x0A], ''GG'']" and tr = "\<lambda>s. s" and fill = "\<lambda>w s. s"]
    unfolding file_iter.simps s g using w by blast
  then show ?thesis
    using w by simp
qed


subsection \<open>Format detection from the file name\<close>

lemma endswith_iff: "endswith s p \<longleftrightarrow> (\<exists>pre. s = pre @ p)"
proof
  assume "endswith s p"
  then have "s = take (length s - length p) s @ p"
    by (metis append_take_drop_id endswith_def)
  then show "\<exists>pre. s = pre @ p" ..
next
  assume "\<exists>pre. s = pre @ p"
  then show "endswith s p"
    by (auto simp: endswith_def)
qed

lemma first_split_unique:
  assumes "c \<notin> set xs" "c \<notin> set xs'" "xs @ c # ys = xs' @ c # ys'"
  shows "xs = xs' \<and> ys = ys'"
proof -
  have "takeWhile (\<lambda>x. x \<noteq> c) (xs @ c # ys) = xs"
    using assms(1) by (simp add: takeWhile_append)
  moreover have "takeWhile (\<lambda>x. x \<noteq> c) (xs' @ c # ys') = xs'"
    using assms(2) by (simp add: takeWhile_append)
  ultimately have "xs = xs'"
    using assms(3) by simp
  with assms(3) show ?thesis by simp
qed

lemma last_split_unique:
  assumes "c \<notin> set e" "c \<notin> set g"
  shows "a @ c # e = b @ c # g \<longleftrightarrow> a = b \<and> e = g"
proof
  assume "a @ c # e = b @ c # g"
  then have "rev (a @ c # e) = rev (b @ c # g)"
    by simp
  then have "rev e @ c # rev a = rev g @ c # rev b"
    by simp
  then have "rev e = rev g \<and> rev a = rev b"
    using assms by (intro first_split_unique[of c]) simp_all
  then show "a = b \<and> e = g" by simp
qed simp

lemma not_endswith_other_ext:
  assumes "CHR ''.'' \<notin> set e" "CHR ''.'' \<notin> set g" "e \<noteq> g"
  shows "\<not> endswith (stem @ CHR ''.'' # e) (CHR ''.'' # g)"
  using assms by (auto simp: endswith_iff last_split_unique)

lemma rfind_last:
  assumes "c \<notin> set e"
  shows "rfind (stem @ c # e) c = int (length stem)"
proof -
  have "takeWhile (\<lambda>x. x \<noteq> c) (rev e @ c # rev stem) = rev e"
    using assms by (simp add: takeWhile_append)
  then show ?thesis
    by (simp add: rfind_def)
qed

lemma rfind_succ:
  "rfind s c + 1 = int (length s) - int (length (takeWhile (\<lambda>x. x \<noteq> c) (rev s)))"
proof (cases "c \<in> set s")
  case True
  then show ?thesis by (simp add: rfind_def)
next
  case False
  then have "takeWhile (\<lambda>x. x \<noteq> c) (rev s) = rev s"
    by (intro takeWhile_eq_all_conv[THEN iffD2]) auto
  then have "length (takeWhile (\<lambda>x. x \<noteq> c) (rev s)) = length s"
    by (metis length_rev)
  with False show ?thesis by (simp add: rfind_def)
qed

lemma rfind_tail:
  assumes "c \<notin> set t"
  shows "rfind (s @ t) c = rfind s c"
proof (cases "c \<in> set s")
  case True
  have "takeWhile (\<lambda>x. x \<noteq> c) (rev t @ rev s) = rev t @ takeWhile (\<lambda>x. x \<noteq> c) (rev s)"
    using assms by (simp add: takeWhile_append)
  with True show ?thesis by (simp add: rfind_def)
next
  case False
  with assms show ?thesis by (simp add: rfind_def)
qed

lemma splitext_stem_ext:
  assumes "CHR ''.'' \<notin> set e" "CHR ''/'' \<notin> set e"
    and "list_ex (\<lambda>x. x \<noteq> CHR ''.'') (takeWhile (\<lambda>x. x \<noteq> CHR ''/'') (rev stem))"
  shows "splitext (stem @ CHR ''.'' # e) = (stem, CHR ''.'' # e)"
proof -
  define k where "k = length (takeWhile (\<lambda>x. x \<noteq> CHR ''/'') (rev stem))"
  have kle: "k \<le> length stem"
    unfolding k_def by (metis length_rev length_takeWhile_le)
  have dot: "rfind (stem @ CHR ''.'' # e) CHR ''.'' = int (length stem)"
    by (rule rfind_last[OF assms(1)])
  have "rfind (stem @ CHR ''.'' # e) CHR ''/'' = rfind stem CHR ''/''"
    using assms(2) by (intro rfind_tail) simp
  then have sep: "rfind (stem @ CHR ''.'' # e) CHR ''/'' + 1 = int (length stem) - int k"
    by (simp add: rfind_succ k_def)
  have n1: "nat (int (length stem) - int k) = length stem - k"
    using kle by simp
  have n2: "nat (int (length stem) - (int (length stem) - int k)) = k"
    by simp
  have "take k (drop (length stem - k) (stem @ CHR ''.'' # e)) = drop (length stem - k) stem"
    using kle by simp
  also have "\<dots> = rev (take k (rev stem))"
    by (simp add: rev_take)
  also have "take k (rev stem) = takeWhile (\<lambda>x. x \<noteq> CHR ''/'') (rev stem)"
    unfolding k_def by (rule takeWhile_eq_take[symmetric])
  finally have mid: "take k (drop (length stem - k) (stem @ CHR ''.'' # e)) =
      rev (takeWhile (\<lambda>x. x \<noteq> CHR ''/'') (rev stem))" .
  have ex: "list_ex (\<lambda>x. x \<noteq> CHR ''.'')
      (take k (drop (length stem - k) (stem @ CHR ''.'' # e)))"
    using assms(3) unfolding mid by (simp add: list_ex_iff)
  have gt: "rfind (stem @ CHR ''.'' # e) CHR ''.'' > rfind (stem @ CHR ''.'' # e) CHR ''/''"
    using sep dot by linarith
  show ?thesis
    unfolding splitext_def Let_def
    using gt ex by (simp add: dot sep n1 n2)
qed

lemma endswith_suffix: "endswith (pre @ p) p"
  by (auto simp: endswith_iff)

lemma rfind_less: "rfind s c < int (length s)"
  using rfind_succ[of s c] by linarith

lemma stem_dir_base:
  obtains dir base where "stem = dir @ base" "CHR ''/'' \<notin> set base"
    "takeWhile (\<lambda>x. x \<noteq> CHR ''/'') (rev stem) = rev base"
    "rfind stem CHR ''/'' + 1 = int (length dir)"
proof -
  define rb where "rb = takeWhile (\<lambda>x. x \<noteq> CHR ''/'') (rev stem)"
  define rd where "rd = dropWhile (\<lambda>x. x \<noteq> CHR ''/'') (rev stem)"
  have "rev stem = rb @ rd"
    by (simp add: rb_def rd_def)
  then have "rev (rev stem) = rev (rb @ rd)"
    by simp
  then have s: "stem = rev rd @ rev rb"
    by simp
  have n: "CHR ''/'' \<notin> set (rev rb)"
    using set_takeWhileD[of "CHR ''/''" "\<lambda>x. x \<noteq> CHR ''/''" "rev stem"]
    by (auto simp: rb_def)
  have "length stem = length rd + length rb"
    using s by (metis length_append length_rev)
  then have l: "rfind stem CHR ''/'' + 1 = int (length (rev rd))"
    by (simp add: rfind_succ rb_def[symmetric])
  show ?thesis
    by (rule that[OF s n _ l]) (simp add: rb_def)
qed

lemma splitext_no_ext:
  assumes "list_all (\<lambda>x. x = CHR ''.'')
     (dropWhile (\<lambda>x. x \<noteq> CHR ''.'') (takeWhile (\<lambda>x. x \<noteq> CHR ''/'') (rev stem)))"
  shows "splitext stem = (stem, [])"
proof -
  obtain dir base where s: "stem = dir @ base" and nb: "CHR ''/'' \<notin> set base"
    and rb: "takeWhile (\<lambda>x. x \<noteq> CHR ''/'') (rev stem) = rev base"
    and sep: "rfind stem CHR ''/'' + 1 = int (length dir)"
    by (rule stem_dir_base)
  show ?thesis
  proof (cases "CHR ''.'' \<in> set base")
    case False
    then have "rfind stem CHR ''.'' = rfind dir CHR ''.''"
      unfolding s by (rule rfind_tail)
    then have "rfind stem CHR ''.'' < int (length dir)"
      by (simp add: rfind_less)
    with sep have "\<not> rfind stem CHR ''.'' > rfind stem CHR ''/''"
      by linarith
    then show ?thesis
      by (simp add: splitext_def Let_def)
  next
    case True
    then obtain pre e where b: "base = pre @ CHR ''.'' # e" and ne: "CHR ''.'' \<notin> set e"
      by (meson split_list_last)
    have "dropWhile (\<lambda>x. x \<noteq> CHR ''.'') (rev e @ CHR ''.'' # rev pre) = CHR ''.'' # rev pre"
      using ne by (simp add: dropWhile_append)
    with assms have "list_all (\<lambda>x. x = CHR ''.'') (rev pre)"
      by (simp add: rb b)
    then have dots: "\<not> list_ex (\<lambda>x. x \<noteq> CHR ''.'') pre"
      by (simp add: list_all_iff list_ex_iff)
    have "rfind ((dir @ pre) @ CHR ''.'' # e) CHR ''.'' = int (length (dir @ pre))"
      by (rule rfind_last[OF ne])
    then have dot: "rfind stem CHR ''.'' = int (length dir) + int (length pre)"
      by (simp add: s b)
    have seg: "take (nat (rfind stem CHR ''.'' - (rfind stem CHR ''/'' + 1)))
        (drop (nat (rfind stem CHR ''/'' + 1)) stem) = pre"
      unfolding sep dot by (simp add: s b)
    show ?thesis
      unfolding splitext_def Let_def seg using dots by simp
  qed
qed

lemma splitext_compressed_parts:
  assumes "cext \<in> {[], ''.gz'', ''.bz2'', ''.xz''}"
    and "cext = [] \<longrightarrow>
           \<not> endswith q ''.gz'' \<and> \<not> endswith q ''.bz2'' \<and> \<not> endswith q ''.xz''"
    and sp: "splitext q = (stem, ext)"
  shows "splitext_compressed (q @ cext) = (stem, ext, if cext = [] then None else Some cext)"
proof -
  consider "cext = []" | "cext = ''.gz''" | "cext = ''.bz2''" | "cext = ''.xz''"
    using assms(1) by auto
  then show ?thesis
  proof cases
    case 1
    with assms(2) sp show ?thesis
      by (simp add: splitext_compressed_def)
  next
    case 2
    have "endswith (q @ ''.gz'') ''.gz''"
      by (rule endswith_suffix)
    with 2 sp show ?thesis
      by (simp add: splitext_compressed_def)
  next
    case 3
    have "\<not> endswith (q @ CHR ''.'' # ''bz2'') ''.gz''"
      by (rule not_endswith_other_ext) simp_all
    moreover have "endswith (q @ ''.bz2'') ''.bz2''"
      by (rule endswith_suffix)
    ultimately show ?thesis
      using 3 sp by (simp add: splitext_compressed_def)
  next
    case 4
    have "\<not> endswith (q @ CHR ''.'' # ''xz'') ''.gz''"
      "\<not> endswith (q @ CHR ''.'' # ''xz'') ''.bz2''"
      by (rule not_endswith_other_ext; simp)+
    moreover have "endswith (q @ ''.xz'') ''.xz''"
      by (rule endswith_suffix)
    ultimately show ?thesis
      using 4 sp by (simp add: splitext_compressed_def)
  qed
qed

lemma lower_dot: "lower (CHR ''.'' # e) = CHR ''.'' # lower e"
  by (simp add: lower_def lower_char_def is_upper_def)

text \<open>Every path is read in the way the next theorem supposes: it ends in one of the
  compression suffixes or in none, and in what is left either a character other than a
  dot stands before the last dot of the final component, which then starts the extension,
  or there is no extension.\<close>

lemma path_shape_exhaustive:
  "\<exists>stem ext cext.
     p = stem @ ext @ cext \<and>
     cext \<in> {[], ''.gz'', ''.bz2'', ''.xz''} \<and>
     (cext = [] \<longrightarrow>
        \<not> endswith (stem @ ext) ''.gz'' \<and> \<not> endswith (stem @ ext) ''.bz2'' \<and>
        \<not> endswith (stem @ ext) ''.xz'') \<and>
     ((ext = [] \<and>
       list_all (\<lambda>x. x = CHR ''.'')
         (dropWhile (\<lambda>x. x \<noteq> CHR ''.'') (takeWhile (\<lambda>x. x \<noteq> CHR ''/'') (rev stem)))) \<or>
      (\<exists>e. ext = CHR ''.'' # e \<and> CHR ''.'' \<notin> set e \<and> CHR ''/'' \<notin> set e \<and>
         list_ex (\<lambda>x. x \<noteq> CHR ''.'') (takeWhile (\<lambda>x. x \<noteq> CHR ''/'') (rev stem))))"
proof -
  obtain q cext where p: "p = q @ cext" and c: "cext \<in> {[], ''.gz'', ''.bz2'', ''.xz''}"
    and n: "cext = [] \<longrightarrow>
        \<not> endswith q ''.gz'' \<and> \<not> endswith q ''.bz2'' \<and> \<not> endswith q ''.xz''"
  proof (cases "endswith p ''.gz'' \<or> endswith p ''.bz2'' \<or> endswith p ''.xz''")
    case True
    then obtain q cext where "p = q @ cext" "cext \<in> {''.gz'', ''.bz2'', ''.xz''}"
      by (auto simp: endswith_iff)
    then show ?thesis
      by (intro that[of q cext]) auto
  next
    case False
    then show ?thesis
      by (intro that[of p "[]"]) auto
  qed
  obtain dir base where s: "q = dir @ base" and nb: "CHR ''/'' \<notin> set base"
    and rb: "takeWhile (\<lambda>x. x \<noteq> CHR ''/'') (rev q) = rev base"
    by (rule stem_dir_base)
  have noext: ?thesis
    if "list_all (\<lambda>x. x = CHR ''.'')
          (dropWhile (\<lambda>x. x \<noteq> CHR ''.'') (takeWhile (\<lambda>x. x \<noteq> CHR ''/'') (rev q)))"
    using that p c n by (intro exI[of _ q] exI[of _ "[]"] exI[of _ cext]) simp
  show ?thesis
  proof (cases "CHR ''.'' \<in> set base")
    case False
    then have e: "dropWhile (\<lambda>x. x \<noteq> CHR ''.'') (rev base) = []"
      by auto
    have "list_all (\<lambda>x. x = CHR ''.'')
          (dropWhile (\<lambda>x. x \<noteq> CHR ''.'') (takeWhile (\<lambda>x. x \<noteq> CHR ''/'') (rev q)))"
      unfolding rb e by simp
    then show ?thesis
      by (rule noext)
  next
    case True
    then obtain pre e where b: "base = pre @ CHR ''.'' # e" and ne: "CHR ''.'' \<notin> set e"
      by (meson split_list_last)
    have d: "dropWhile (\<lambda>x. x \<noteq> CHR ''.'') (rev e @ CHR ''.'' # rev pre) = CHR ''.'' # rev pre"
      using ne by (simp add: dropWhile_append)
    show ?thesis
    proof (cases "list_ex (\<lambda>x. x \<noteq> CHR ''.'') pre")
      case False
      then have "list_all (\<lambda>x. x = CHR ''.'') (CHR ''.'' # rev pre)"
        by (simp add: list_all_iff list_ex_iff)
      then have "list_all (\<lambda>x. x = CHR ''.'')
          (dropWhile (\<lambda>x. x \<noteq> CHR ''.'') (takeWhile (\<lambda>x. x \<noteq> CHR ''/'') (rev q)))"
        unfolding rb b using d by simp
      then show ?thesis
        by (rule noext)
    next
      case ex: True
      have "CHR ''/'' \<notin> set pre" "CHR ''/'' \<notin> set e"
        using nb b by auto
      then have "takeWhile (\<lambda>x. x \<noteq> CHR ''/'') (rev (dir @ pre)) =
          rev pre @ takeWhile (\<lambda>x. x \<noteq> CHR ''/'') (rev dir)"
        by (simp add: takeWhile_append)
      with ex have l: "list_ex (\<lambda>x. x \<noteq> CHR ''.'')
          (takeWhile (\<lambda>x. x \<noteq> CHR ''/'') (rev (dir @ pre)))"
        by (auto simp: list_ex_iff)
      have q: "q = (dir @ pre) @ (CHR ''.'' # e)"
        by (simp add: s b)
      show ?thesis
        using p c n ne \<open>CHR ''/'' \<notin> set e\<close> l unfolding q
        by (intro exI[of _ "dir @ pre"] exI[of _ "CHR ''.'' # e"] exI[of _ cext]) simp
    qed
  qed
qed

text \<open>
  Claim C7, as the code has it. Read a path as a stem, an extension and a compression
  suffix: the suffix is the \<open>.gz\<close>, \<open>.bz2\<close> or \<open>.xz\<close> the path ends in, or empty when it
  ends in none of them; the extension of what is left starts at the last dot of the
  final path component when a character other than a dot stands before that dot in the
  component, and is empty otherwise. The suffix is taken off and the extension is
  compared in lower case: \<open>.fasta\<close>, \<open>.fa\<close>, \<open>.fna\<close>, \<open>.csfasta\<close>, \<open>.csfa\<close> give \<open>fasta\<close>;
  \<open>.fastq\<close>, \<open>.fq\<close>, and \<open>.txt\<close> after a stem that ends in \<open>_sequence\<close> written in
  exactly these lower-case letters, give \<open>fastq\<close>; \<open>.sam\<close> and \<open>.bam\<close> give \<open>sam\<close> and
  \<open>bam\<close>; any other extension, the empty one too, gives no format, or the error for an
  unknown file type when \<open>raise_on_failure\<close> is set. Only the empty path with
  \<open>raise_on_failure\<close> set is left out.
\<close>

theorem guess_format_from_name_table:
  assumes "cext \<in> {[], ''.gz'', ''.bz2'', ''.xz''}"
    and "cext = [] \<longrightarrow>
           \<not> endswith (stem @ ext) ''.gz'' \<and> \<not> endswith (stem @ ext) ''.bz2'' \<and>
           \<not> endswith (stem @ ext) ''.xz''"
    and "(ext = [] \<and>
          list_all (\<lambda>x. x = CHR ''.'')
            (dropWhile (\<lambda>x. x \<noteq> CHR ''.'') (takeWhile (\<lambda>x. x \<noteq> CHR ''/'') (rev stem)))) \<or>
         (\<exists>e. ext = CHR ''.'' # e \<and> CHR ''.'' \<notin> set e \<and> CHR ''/'' \<notin> set e \<and>
            list_ex (\<lambda>x. x \<noteq> CHR ''.'') (takeWhile (\<lambda>x. x \<noteq> CHR ''/'') (rev stem)))"
    and "stem @ ext @ cext \<noteq> [] \<or> \<not> raise_on_failure"
  shows "guess_format_from_name (PathStr (stem @ ext @ cext)) raise_on_failure =
     (if lower ext \<in> {''.fasta'', ''.fa'', ''.fna'', ''.csfasta'', ''.csfa''}
      then Inr (Some ''fasta'')
      else if lower ext \<in> {''.fastq'', ''.fq''} \<or>
              (lower ext = ''.txt'' \<and> endswith stem ''_sequence'')
      then Inr (Some ''fastq'')
      else if lower ext = ''.sam'' then Inr (Some ''sam'')
      else if lower ext = ''.bam'' then Inr (Some ''bam'')
      else if raise_on_failure
      then Inl (UnknownFileType (UnrecognizedExtension (PathStr (stem @ ext @ cext)) (lower ext)))
      else Inr None)"
proof (cases "stem @ ext @ cext = []")
  case True
  with assms(4) have "\<not> raise_on_failure"
    by simp
  with True show ?thesis
    by (simp add: guess_format_from_name_def lower_def)
next
  case False
  have sp: "splitext (stem @ ext) = (stem, ext)"
    using assms(3)
  proof
    assume "ext = [] \<and>
          list_all (\<lambda>x. x = CHR ''.'')
            (dropWhile (\<lambda>x. x \<noteq> CHR ''.'') (takeWhile (\<lambda>x. x \<noteq> CHR ''/'') (rev stem)))"
    then show ?thesis
      by (simp add: splitext_no_ext)
  next
    assume "\<exists>e. ext = CHR ''.'' # e \<and> CHR ''.'' \<notin> set e \<and> CHR ''/'' \<notin> set e \<and>
            list_ex (\<lambda>x. x \<noteq> CHR ''.'') (takeWhile (\<lambda>x. x \<noteq> CHR ''/'') (rev stem))"
    then show ?thesis
      by (auto simp: splitext_stem_ext)
  qed
  have "splitext_compressed ((stem @ ext) @ cext) =
          (stem, ext, if cext = [] then None else Some cext)"
    by (rule splitext_compressed_parts[OF assms(1,2) sp])
  then have p: "splitext_compressed (stem @ ext @ cext) =
          (stem, ext, if cext = [] then None else Some cext)"
    by simp
  have sam: "slice_rest ''.sam'' = ''sam''" "slice_rest ''.bam'' = ''bam''"
    by (simp_all add: slice_rest_def)
  show ?thesis
    using False by (auto simp: guess_format_from_name_def p Let_def sam)
qed

text \<open>\<open>run1/reads_sequence.TXT.gz\<close> is FASTQ, \<open>ref.FA\<close> is FASTA, \<open>reads\<close> has no format
  and \<open>out.xyz\<close> raises when asked to.\<close>

theorem guess_format_from_name_table_witness:
  "guess_format_from_name (PathStr ''run1/reads_sequence.TXT.gz'') False = Inr (Some ''fastq'') \<and>
   guess_format_from_name (PathStr ''ref.FA'') False = Inr (Some ''fasta'') \<and>
   guess_format_from_name (PathStr ''reads'') False = Inr None \<and>
   guess_format_from_name (PathStr ''out.xyz'') True =
     Inl (UnknownFileType (UnrecognizedExtension (PathStr ''out.xyz'') ''.xyz''))"
  using guess_format_from_name_table[of "''.gz''" "''run1/reads_sequence''" "''.TXT''" False]
    guess_format_from_name_table[of "[]" "''ref''" "''.FA''" False]
    guess_format_from_name_table[of "[]" "''reads''" "[]" False]
    guess_format_from_name_table[of "[]" "''out''" "''.xyz''" True]
  by (simp add: lower_def lower_char_def is_upper_def endswith_def)

text \<open>
  Claim C7 as it is stated fails: the extension is compared without regard to case, the
  end of the stem is not, so \<open>reads_SEQUENCE.TXT\<close> has no format.
\<close>

theorem guess_format_from_name_counterexample:
  "guess_format_from_name (PathStr ''reads_SEQUENCE.TXT'') False = Inr None"
  by (simp add: guess_format_from_name_def splitext_compressed_def splitext_def rfind_def
      endswith_def lower_def lower_char_def is_upper_def)

subsection \<open>The output format\<close>

text \<open>What \<^verbatim>\<open>get_format\<close> does without an explicit format, where it does resolve: when the
  name gives no format, stated qualities choose FASTQ or FASTA; a detected FASTQ without
  qualities is an error; and for a path with a non-empty name, no stated qualities make
  the failed detection the error for an unknown file type.\<close>

lemma get_format_resolution:
  "(guess_format_from_name path False = Inr None \<longrightarrow>
      get_format path None colorspace (Some True) line_length =
        Inr (if colorspace then ColorspaceFastqFormat else FastqFormat) \<and>
      get_format path None colorspace (Some False) line_length =
        Inr (if colorspace then ColorspaceFastaFormat (text_wrapper_init line_length)
             else FastaFormat (text_wrapper_init line_length))) \<and>
   (guess_format_from_name path False = Inr (Some ''fastq'') \<longrightarrow>
      get_format path None colorspace (Some False) line_length =
        Inl (ValueError FastqWithoutQualities)) \<and>
   (guess_format_from_name path False = Inr None \<and> path_name path = Some nm \<and> nm \<noteq> [] \<longrightarrow>
      (\<exists>ext. get_format path None colorspace None line_length =
        Inl (UnknownFileType (UnrecognizedExtension path ext))))"
  by (auto simp: get_format_def guess_format_from_name_def lower_def lower_char_def
      is_upper_def Let_def split: prod.splits if_splits)

text \<open>
  Claim C6 on a path without a name. The code means to raise \<^verbatim>\<open>UnknownFileType\<close> when
  the detection fails and no qualities are stated, but the message of that error reads
  the variable \<open>ext\<close>, which has no value when the path has no name or an empty one:
  what is raised is \<^verbatim>\<open>UnboundLocalError\<close>.
\<close>

theorem get_format_nameless_path:
  "get_format (PathObj (File None [])) None False None None = Inl (UnboundLocalError ''ext'') \<and>
   get_format (PathStr []) None False None None = Inl (UnboundLocalError ''ext'')"
  by (simp add: get_format_def guess_format_from_name_def)


subsection \<open>Format detection from the content\<close>

lemma strip_newline: "strip (l @ [CHR 0x0A]) = strip l"
proof (cases "\<forall>c\<in>set l. is_space c")
  case True
  have nl: "is_space CHR 0x0A" by (simp add: is_space_def)
  have "\<forall>c\<in>set (l @ [CHR 0x0A]). is_space c"
    using True nl by simp
  then have a: "dropWhile is_space (l @ [CHR 0x0A]) = []"
    by (rule dropWhile_eq_Nil_conv[THEN iffD2])
  have b: "dropWhile is_space l = []"
    using True by (rule dropWhile_eq_Nil_conv[THEN iffD2])
  show ?thesis
    unfolding strip_def a b by simp
next
  case False
  then obtain x where "x \<in> set l" "\<not> is_space x"
    by blast
  then have a: "dropWhile is_space (l @ [CHR 0x0A]) = dropWhile is_space l @ [CHR 0x0A]"
    by (rule dropWhile_append1)
  have nl: "is_space CHR 0x0A" by (simp add: is_space_def)
  show ?thesis
    unfolding strip_def a using nl by simp
qed

lemma strip_header:
  assumes "startswith line ''>''"
  shows "\<exists>t. strip line = CHR ''>'' # t"
proof -
  from assms obtain t where l: "line = CHR ''>'' # t"
    by (cases line) (auto simp: startswith_def)
  have ns: "\<not> is_space CHR ''>''"
    by (simp add: is_space_def)
  have "\<exists>zs. dropWhile is_space (rev t @ [CHR ''>'']) = zs @ [CHR ''>'']"
  proof (cases "\<forall>c\<in>set (rev t). is_space c")
    case True
    then have "dropWhile is_space (rev t @ [CHR ''>'']) = dropWhile is_space [CHR ''>'']"
      by (intro dropWhile_append2) simp
    with ns have "dropWhile is_space (rev t @ [CHR ''>'']) = [] @ [CHR ''>'']"
      by simp
    then show ?thesis ..
  next
    case False
    then obtain x where "x \<in> set (rev t)" "\<not> is_space x"
      by blast
    then have "dropWhile is_space (rev t @ [CHR ''>'']) = dropWhile is_space (rev t) @ [CHR ''>'']"
      by (rule dropWhile_append1)
    then show ?thesis ..
  qed
  then obtain zs where zs: "dropWhile is_space (rev t @ [CHR ''>'']) = zs @ [CHR ''>'']"
    by blast
  have "strip line = rev (dropWhile is_space (rev t @ [CHR ''>'']))"
    using ns l by (simp add: strip_def)
  then have "strip line = CHR ''>'' # rev zs"
    by (simp add: zs)
  then show ?thesis ..
qed

lemma first_data_line_File:
  assumes "\<forall>c\<in>set comments. startswith c ''#''" "\<not> startswith line ''#''"
  shows "first_data_line (File nm (comments @ line # rest)) = (Some line, File nm rest)"
proof -
  have "dropWhile (\<lambda>l. startswith l ''#'') (comments @ line # rest) = line # rest"
    using assms by simp
  then show ?thesis by simp
qed

lemma lower_fasta: "lower ''fasta'' = ''fasta''" "lower ''fastq'' = ''fastq''"
  by (simp_all add: lower_def lower_char_def is_upper_def)

lemma open_reader_known_format:
  "open_reader f None None colorspace (Some ''fasta'') False sir =
     Inr (if colorspace then ColorspaceFastaReader f else FastaReader f)"
  "open_reader f None None colorspace (Some ''fastq'') False sir =
     Inr (if colorspace then ColorspaceFastqReader f else FastqReader f)"
  by (simp_all add: open_reader.simps lower_fasta)

lemma FastaReader_first_record:
  assumes "startswith line ''>''"
  shows "\<exists>sq it. FastaReader_iter tr Sequence_class False
           (FileWithPrependedLine_init file1 line) =
         Yield \<lparr>name = slice_rest (strip line), sequence = sq, qualities = None, name2 = []\<rparr> it"
proof -
  obtain t where t: "strip line = CHR ''>'' # t"
    using strip_header[OF assms] by blast
  have s: "strip (if \<not> endswith line [CHR 0x0A] then line @ [CHR 0x0A] else line) = CHR ''>'' # t"
    using t by (simp add: strip_newline)
  show ?thesis
    unfolding FastaReader_iter_def FileWithPrependedLine_init_def file_iter.simps
      FastaReader_loop.simps Let_def s
    by (simp add: t FastaReader_loop_open)
qed

text \<open>
  Claim C3. Let \<open>file1\<close> be an open stream whose name gives no format, read with no
  explicit format, no second file and no quality file. Its leading lines that start
  with \<open>#\<close> are skipped and the first other line decides: a line starting with \<open>>\<close>
  selects the FASTA reader and a line starting with \<open>@\<close> the FASTQ reader (the
  colorspace class when colorspace is requested, inside an interleaved reader when
  interleaved is requested). In both cases the reader is built on a
  \<^verbatim>\<open>FileWithPrependedLine\<close> that holds the line that was read, completed by a newline if
  it had none, in front of the rest of the stream: the line is the first one the reader
  sees, and the first record of the FASTA reader has it, stripped and without the \<open>>\<close>,
  as its name.
\<close>

theorem open_reader_detects_from_content:
  assumes "guess_format_from_name (PathObj (File nm (comments @ line # rest))) False = Inr None"
    and "\<forall>c\<in>set comments. startswith c ''#''"
    and "\<not> startswith line ''#''"
    and "w = FileWithPrependedLine
               (if \<not> endswith line [CHR 0x0A] then line @ [CHR 0x0A] else line) (File nm rest)"
    and "base = (if startswith line ''>''
                 then (if colorspace then ColorspaceFastaReader w else FastaReader w)
                 else (if colorspace then ColorspaceFastqReader w else FastqReader w))"
    and "startswith line ''>'' \<or> startswith line ''@''"
  shows "open_reader (File nm (comments @ line # rest)) None None colorspace None interleaved
           single_input_read =
           Inr (if \<not> interleaved then base
                else if single_input_read = Some 1
                then paired_to_read1 (InterleavedSequenceReader base)
                else if single_input_read = Some 2
                then paired_to_read2 (InterleavedSequenceReader base)
                else InterleavedSequenceReader base) \<and>
         file_iter w = (if \<not> endswith line [CHR 0x0A] then line @ [CHR 0x0A] else line) # rest \<and>
         (startswith line ''>'' \<longrightarrow>
            (\<exists>sq it. FastaReader_iter tr Sequence_class False w =
               Yield \<lparr>name = slice_rest (strip line), sequence = sq, qualities = None,
                      name2 = []\<rparr> it))"
proof -
  have fd: "first_data_line (File nm (comments @ line # rest)) = (Some line, File nm rest)"
    by (rule first_data_line_File[OF assms(2,3)])
  have w: "FileWithPrependedLine_init (File nm rest) line = w"
    by (simp add: FileWithPrependedLine_init_def assms(4))
  define fmt where "fmt = (if startswith line ''>'' then ''fasta'' else ''fastq'')"
  have dc: "detect_from_content (File nm (comments @ line # rest)) = (Some fmt, w)"
    using assms(6)
    by (auto simp add: detect_from_content_def fd w fmt_def simp del: first_data_line.simps)
  have 1: "open_reader (File nm (comments @ line # rest)) None None colorspace None interleaved
           single_input_read =
           Inr (if \<not> interleaved then base
                else if single_input_read = Some 1
                then paired_to_read1 (InterleavedSequenceReader base)
                else if single_input_read = Some 2
                then paired_to_read2 (InterleavedSequenceReader base)
                else InterleavedSequenceReader base)"
  proof (cases "startswith line ''>''")
    case True
    then have f: "fmt = ''fasta''"
      and b: "base = (if colorspace then ColorspaceFastaReader w else FastaReader w)"
      by (simp_all add: fmt_def assms(5))
    show ?thesis
      by (subst open_reader.simps)
        (simp add: assms(1) dc f b lower_fasta open_reader_known_format)
  next
    case False
    then have f: "fmt = ''fastq''"
      and b: "base = (if colorspace then ColorspaceFastqReader w else FastqReader w)"
      by (simp_all add: fmt_def assms(5))
    show ?thesis
      by (subst open_reader.simps)
        (simp add: assms(1) dc f b lower_fasta open_reader_known_format)
  qed
  have 2: "file_iter w = (if \<not> endswith line [CHR 0x0A] then line @ [CHR 0x0A] else line) # rest"
    by (simp add: assms(4))
  have 3: "\<exists>sq it. FastaReader_iter tr Sequence_class False w =
               Yield \<lparr>name = slice_rest (strip line), sequence = sq, qualities = None,
                      name2 = []\<rparr> it" if "startswith line ''>''"
    using FastaReader_first_record[OF that, of tr "File nm rest"] by (simp add: w)
  show ?thesis
    using 1 2 3 by blast
qed

text \<open>A stream without a name: a comment, then a FASTA record.\<close>

theorem open_reader_detects_from_content_witness:
  "open_reader (File None [''# by hand\<newline>'', ''>read1 desc\<newline>'', ''ACGT\<newline>''])
     None None False None False None =
     Inr (FastaReader
       (FileWithPrependedLine ''>read1 desc\<newline>'' (File None [''ACGT\<newline>'']))) \<and>
   file_iter (FileWithPrependedLine ''>read1 desc\<newline>'' (File None [''ACGT\<newline>''])) =
     [''>read1 desc\<newline>'', ''ACGT\<newline>''] \<and>
   FastaReader_iter (\<lambda>s. s) Sequence_class False
     (FileWithPrependedLine ''>read1 desc\<newline>'' (File None [''ACGT\<newline>''])) =
     Yield \<lparr>name = ''read1 desc'', sequence = ''ACGT'', qualities = None, name2 = ''''\<rparr> Stop"
proof -
  have g: "guess_format_from_name
      (PathObj (File None ([''# by hand\<newline>''] @ ''>read1 desc\<newline>'' # [''ACGT\<newline>''])))
      False = Inr None"
    by (simp add: guess_format_from_name_def)
  have c: "\<forall>c\<in>set [''# by hand\<newline>'']. startswith c ''#''"
    by (simp add: startswith_def)
  have l: "\<not> startswith ''>read1 desc\<newline>'' ''#''"
    "startswith ''>read1 desc\<newline>'' ''>'' \<or> startswith ''>read1 desc\<newline>'' ''@''"
    by (simp_all add: startswith_def)
  have e: "endswith ''>read1 desc\<newline>'' [CHR 0x0A]"
    by (simp add: endswith_def)
  have r: "FastaReader_iter (\<lambda>s. s) Sequence_class False
     (FileWithPrependedLine ''>read1 desc\<newline>'' (File None [''ACGT\<newline>''])) =
     Yield \<lparr>name = ''read1 desc'', sequence = ''ACGT'', qualities = None, name2 = ''''\<rparr> Stop"
    by (simp add: FastaReader_iter_def strip_def is_space_def slice_rest_def Sequence_class_def
        Sequence_init_def)
  show ?thesis
    using open_reader_detects_from_content[OF g c l(1) refl refl l(2),
        where colorspace = False and interleaved = False and single_input_read = None]
      r e
    by (simp add: startswith_def)
qed


end
